theory Spec2Isabelle
  imports Complex_Main "HOL-Library.Log_Nat"
begin

section \<open>Numbers\<close>

text \<open>
  The source computes with JavaScript numbers, and the store holds amounts as BSON
  doubles: both are IEEE 754 binary64 values.  A finite double is modelled by the rational
  number it denotes, and every arithmetic operation of the source is the exact operation
  followed by \<open>rd\<close>, rounding to the nearest number with a 53-bit significand, ties to the
  even significand.  The exponent range of binary64 is not modelled: there is no overflow
  to infinity and no underflow (the figures of the reports stay between a hundredth
  divided by the sum of all amounts and that sum, each amount being at most 1,000,000).
\<close>

type_synonym double = rat

definition round_half_even :: "rat \<Rightarrow> int" where
  "round_half_even x =
     (let f = \<lfloor>x\<rfloor>; r = x - of_int f
      in if r < 1 / 2 then f
         else if 1 / 2 < r then f + 1
         else if even f then f else f + 1)"

definition ilog2 :: "rat \<Rightarrow> int" where
  \<comment> \<open>the exponent of a positive number: the greatest \<open>k\<close> with \<open>2 powi k \<le> a\<close>\<close>
  "ilog2 a = (if 1 \<le> a then bitlen \<lfloor>a\<rfloor> - 1 else - bitlen (\<lceil>1 / a\<rceil> - 1))"

definition rd :: "rat \<Rightarrow> double" where
  "rd x = (if x = 0 then 0
           else let s = 2 powi (ilog2 \<bar>x\<bar> - 52)
                in sgn x * of_int (round_half_even (\<bar>x\<bar> / s)) * s)"

definition unit_roundoff :: rat where
  \<comment> \<open>the largest relative error of \<open>rd\<close>, half the gap between 1 and the next double\<close>
  "unit_roundoff = 1 / 2 ^ 53"

definition fadd :: "double \<Rightarrow> double \<Rightarrow> double" where
  \<comment> \<open>\<^verbatim>\<open>x + y\<close>\<close>
  "fadd x y = rd (x + y)"

definition fmul :: "double \<Rightarrow> double \<Rightarrow> double" where
  \<comment> \<open>\<^verbatim>\<open>x * y\<close>\<close>
  "fmul x y = rd (x * y)"

definition fdiv :: "double \<Rightarrow> double \<Rightarrow> double" where
  \<comment> \<open>\<^verbatim>\<open>x / y\<close>\<close>
  "fdiv x y = rd (x / y)"

definition Math_round :: "double \<Rightarrow> int" where
  \<comment> \<open>\<^verbatim>\<open>Math.round(x)\<close>: the nearest integer, a tie goes towards plus infinity\<close>
  "Math_round x = \<lfloor>x + 1 / 2\<rfloor>"

definition round2 :: "double \<Rightarrow> double" where
  \<comment> \<open>\<^verbatim>\<open>Math.round(x * 100) / 100\<close>\<close>
  "round2 x = fdiv (of_int (Math_round (fmul x 100))) 100"

text \<open>
  The operators of the aggregation pipeline belong to the store, not to the source.  They
  are modelled from the store's documented behaviour: \<^verbatim>\<open>$sum\<close> adds in extended precision
  and delivers the double nearest to the sum, \<^verbatim>\<open>$avg\<close> divides that sum by the count, and
  \<^verbatim>\<open>{ $round: [x, 2] }\<close> rounds the decimal value of \<open>x\<close> to two places, a tie going to the
  even neighbour, and delivers the nearest double.
\<close>

definition mongo_round2 :: "double \<Rightarrow> double" where
  \<comment> \<open>\<^verbatim>\<open>{ $round: [x, 2] }\<close>\<close>
  "mongo_round2 x = rd (of_int (round_half_even (x * 100)) / 100)"

definition two_places :: "double \<Rightarrow> bool" where
  \<comment> \<open>the double nearest to a whole number of hundredths\<close>
  "two_places x = (\<exists>k::int. x = rd (of_int k / 100))"

definition spec_round2 :: "rat \<Rightarrow> rat" where
  \<comment> \<open>From the specification (section 4.5), not from the source: \<open>round(x, 2)\<close>, the decimal
      \<open>x\<close> rounded to two places, half up.  It states what a claim expects and is used by no
      handler.\<close>
  "spec_round2 x = of_int \<lfloor>x * 100 + 1 / 2\<rfloor> / 100"

section \<open>Dates\<close>

text \<open>
  A \<^verbatim>\<open>Date\<close> (JavaScript and BSON alike) is a number of milliseconds since
  1970-01-01T00:00:00Z.  The store's \<^verbatim>\<open>$year\<close>, \<^verbatim>\<open>$month\<close> and \<^verbatim>\<open>$dayOfMonth\<close> read the
  UTC calendar fields.  The conversion between day numbers and the proleptic Gregorian
  calendar is the usual era-based one (eras of 400 years starting on 1 March).
\<close>

type_synonym date = int

definition ms_per_day :: int where
  "ms_per_day = 86400000"

definition days_from_civil :: "int \<Rightarrow> int \<Rightarrow> int \<Rightarrow> int" where
  "days_from_civil y m d =
     (let y' = (if m \<le> 2 then y - 1 else y);
          era = y' div 400;
          yoe = y' - era * 400;
          mp = (if 2 < m then m - 3 else m + 9);
          doy = (153 * mp + 2) div 5 + d - 1;
          doe = yoe * 365 + yoe div 4 - yoe div 100 + doy
      in era * 146097 + doe - 719468)"

definition civil_from_days :: "int \<Rightarrow> int \<times> int \<times> int" where
  "civil_from_days z0 =
     (let z = z0 + 719468;
          era = z div 146097;
          doe = z - era * 146097;
          yoe = (doe - doe div 1460 + doe div 36524 - doe div 146096) div 365;
          doy = doe - (365 * yoe + yoe div 4 - yoe div 100);
          mp = (5 * doy + 2) div 153;
          d = doy - (153 * mp + 2) div 5 + 1;
          m = (mp + 2) mod 12 + 1;
          y = yoe + era * 400 + (if m \<le> 2 then 1 else 0)
      in (y, m, d))"

definition utc_year :: "date \<Rightarrow> int" where
  \<comment> \<open>\<^verbatim>\<open>{ $year: "$date" }\<close>\<close>
  "utc_year t = fst (civil_from_days (t div ms_per_day))"

definition utc_month :: "date \<Rightarrow> int" where
  \<comment> \<open>\<^verbatim>\<open>{ $month: "$date" }\<close>, 1 to 12\<close>
  "utc_month t = fst (snd (civil_from_days (t div ms_per_day)))"

definition utc_dayOfMonth :: "date \<Rightarrow> int" where
  \<comment> \<open>\<^verbatim>\<open>{ $dayOfMonth: "$date" }\<close>\<close>
  "utc_dayOfMonth t = snd (snd (civil_from_days (t div ms_per_day)))"

definition dateFromParts :: "int \<times> int \<times> int \<Rightarrow> date" where
  \<comment> \<open>\<^verbatim>\<open>$dateFromParts\<close>: midnight UTC of the given day\<close>
  "dateFromParts k = (case k of (y, m, d) \<Rightarrow> days_from_civil y m d * ms_per_day)"

text \<open>
  The handlers run in an environment that is not part of the request: the time zone of the
  server and its clock.  The time zone is given by the two conversions of the language
  specification, from an instant to the local wall-clock time (\<^verbatim>\<open>LocalTime\<close>) and back
  (\<^verbatim>\<open>UTC\<close>), both in milliseconds; a zone with daylight-saving time is one whose conversions
  are not a constant shift.  The clock is read by \<^verbatim>\<open>new Date()\<close>; a handler may read it
  several times, so the clock of a request is the sequence of its readings, the first
  reading having index 0.
\<close>

record zone =
  local_of_utc :: "date \<Rightarrow> int"
  utc_of_local :: "int \<Rightarrow> date"

type_synonym clock = "nat \<Rightarrow> date"

definition new_Date :: "zone \<Rightarrow> int \<Rightarrow> int \<Rightarrow> int \<Rightarrow> date" where
  \<comment> \<open>\<^verbatim>\<open>new Date(year, monthIndex, day)\<close>: local midnight; a year from 0 to 99 means 1900 + year;
      month index and day overflow into the neighbouring months\<close>
  "new_Date z year monthIndex day =
     (let y = (if 0 \<le> year \<and> year \<le> 99 then 1900 + year else year)
      in utc_of_local z
           ((days_from_civil (y + monthIndex div 12) (monthIndex mod 12 + 1) 1 + (day - 1))
              * ms_per_day))"

definition getFullYear :: "zone \<Rightarrow> date \<Rightarrow> int" where
  \<comment> \<open>\<^verbatim>\<open>t.getFullYear()\<close>\<close>
  "getFullYear z t = utc_year (local_of_utc z t)"

definition getMonth :: "zone \<Rightarrow> date \<Rightarrow> int" where
  \<comment> \<open>\<^verbatim>\<open>t.getMonth()\<close>, 0 to 11\<close>
  "getMonth z t = utc_month (local_of_utc z t) - 1"

definition minus_days :: "zone \<Rightarrow> date \<Rightarrow> int \<Rightarrow> date" where
  \<comment> \<open>\<^verbatim>\<open>t.setDate(t.getDate() - days)\<close>: the same local time of day, \<open>days\<close> calendar days
      earlier on the local calendar\<close>
  "minus_days z t days = utc_of_local z (local_of_utc z t - days * ms_per_day)"

section \<open>Expense records and the store\<close>

type_synonym object_id = nat

datatype ExpenseCategory =
  FOOD | TRANSPORTATION | ENTERTAINMENT | HEALTHCARE | SHOPPING
  | UTILITIES | EDUCATION | TRAVEL | OTHER

record expense =
  exp_id :: object_id
  title :: string
  amount :: double
  date :: date
  category :: ExpenseCategory
  exp_notes :: "string option"
  userId :: object_id
  createdAt :: date

text \<open>
  The collection, in the order in which the store scans it.  The store leaves two orders
  open: that of the groups a \<^verbatim>\<open>$group\<close> stage delivers, and that of documents with equal
  keys after a \<^verbatim>\<open>$sort\<close>.  The model derives both from the order of the collection, so
  a store that is not changed answers the same query in the same order.
\<close>

type_synonym store = "expense list"

definition group_by :: "('a \<Rightarrow> 'k) \<Rightarrow> 'a list \<Rightarrow> ('k \<times> 'a list) list" where
  \<comment> \<open>\<^verbatim>\<open>$group\<close>: one group per distinct key, with the documents of that key\<close>
  "group_by f xs = map (\<lambda>k. (k, filter (\<lambda>x. f x = k) xs)) (remdups (map f xs))"

definition mongo_sum :: "expense list \<Rightarrow> double" where
  \<comment> \<open>\<^verbatim>\<open>{ $sum: "$amount" }\<close>\<close>
  "mongo_sum es = rd (sum_list (map amount es))"

definition mongo_avg :: "expense list \<Rightarrow> double" where
  \<comment> \<open>\<^verbatim>\<open>{ $avg: "$amount" }\<close>, over a group, which is never empty\<close>
  "mongo_avg es = fdiv (mongo_sum es) (of_nat (length es))"

section \<open>Category report\<close>

datatype qparam = Absent | Malformed | DateValue date

record report_query =
  q_startDate :: qparam
  q_endDate :: qparam
  q_unknown :: "string list"  \<comment> \<open>query keys other than startDate and endDate\<close>

datatype error = ValidationError "string list"

definition reportQuerySchema_validate :: "report_query \<Rightarrow> string list + date \<times> date" where
  "reportQuerySchema_validate q =
     (case q_startDate q of
        Absent \<Rightarrow> Inl [''Start date is required'']
      | Malformed \<Rightarrow> Inl [''Start date must be a valid date'']
      | DateValue s \<Rightarrow>
          (case q_endDate q of
             Absent \<Rightarrow> Inl [''End date is required'']
           | Malformed \<Rightarrow> Inl [''End date must be a valid date'']
           | DateValue e \<Rightarrow>
               if e < s then Inl [''End date must be after start date'']
               else (case q_unknown q of
                       [] \<Rightarrow> Inr (s, e)
                     | k # _ \<Rightarrow> Inl [CHR 0x22 # k @ CHR 0x22 # '' is not allowed''])))"

record expense_ref =
  er_id :: object_id
  er_title :: string
  er_amount :: double
  er_date :: date

definition push_expense :: "expense \<Rightarrow> expense_ref" where
  "push_expense x = \<lparr>er_id = exp_id x, er_title = title x, er_amount = amount x, er_date = date x\<rparr>"

record category_total =
  ct_category :: ExpenseCategory
  ct_totalAmount :: double
  ct_count :: nat
  ct_avgAmount :: double
  ct_expenses :: "expense_ref list"

record category_item =
  ci_category :: ExpenseCategory
  ci_totalAmount :: double
  ci_count :: nat
  ci_avgAmount :: double
  ci_expenses :: "expense_ref list"
  ci_percentage :: double

record category_report =
  cr_startDate :: date
  cr_endDate :: date
  cr_grandTotal :: double
  cr_totalCount :: nat
  cr_avgExpense :: double
  cr_categoriesCount :: nat
  cr_categoryBreakdown :: "category_item list"

definition category_match :: "store \<Rightarrow> object_id \<Rightarrow> date \<Rightarrow> date \<Rightarrow> expense list" where
  \<comment> \<open>the \<^verbatim>\<open>$match\<close> stage of the category pipeline\<close>
  "category_match db uid s e = filter (\<lambda>x. userId x = uid \<and> s \<le> date x \<and> date x \<le> e) db"

definition category_group :: "ExpenseCategory \<times> expense list \<Rightarrow> category_total" where
  \<comment> \<open>\<^verbatim>\<open>$group\<close> by category followed by \<^verbatim>\<open>$project\<close>\<close>
  "category_group g =
     \<lparr>ct_category = fst g,
      ct_totalAmount = mongo_round2 (mongo_sum (snd g)),
      ct_count = length (snd g),
      ct_avgAmount = mongo_round2 (mongo_avg (snd g)),
      ct_expenses = map push_expense (snd g)\<rparr>"

definition categoryTotals :: "store \<Rightarrow> object_id \<Rightarrow> date \<Rightarrow> date \<Rightarrow> category_total list" where
  \<comment> \<open>the whole pipeline, ending with \<^verbatim>\<open>{ $sort: { totalAmount: -1 } }\<close>\<close>
  "categoryTotals db uid s e =
     sort_key (\<lambda>c. - ct_totalAmount c)
       (map category_group (group_by category (category_match db uid s e)))"

definition percentage :: "double \<Rightarrow> double \<Rightarrow> double" where
  \<comment> \<open>\<^verbatim>\<open>grandTotal > 0 ? Math.round((totalAmount / grandTotal) * 100 * 100) / 100 : 0\<close>\<close>
  "percentage totalAmount grandTotal =
     (if 0 < grandTotal
      then fdiv (of_int (Math_round (fmul (fmul (fdiv totalAmount grandTotal) 100) 100))) 100
      else 0)"

definition with_percentage :: "double \<Rightarrow> category_total \<Rightarrow> category_item" where
  "with_percentage grandTotal c =
     \<lparr>ci_category = ct_category c,
      ci_totalAmount = ct_totalAmount c,
      ci_count = ct_count c,
      ci_avgAmount = ct_avgAmount c,
      ci_expenses = ct_expenses c,
      ci_percentage = percentage (ct_totalAmount c) grandTotal\<rparr>"

definition category_assemble :: "date \<Rightarrow> date \<Rightarrow> category_total list \<Rightarrow> category_report" where
  "category_assemble s e cts =
     (let grandTotal = foldl (\<lambda>sum c. fadd sum (ct_totalAmount c)) 0 cts;
          totalCount = foldl (\<lambda>sum c. sum + ct_count c) 0 cts
      in \<lparr>cr_startDate = s,
          cr_endDate = e,
          cr_grandTotal = round2 grandTotal,
          cr_totalCount = totalCount,
          cr_avgExpense =
            (if 0 < totalCount then round2 (fdiv grandTotal (of_nat totalCount)) else 0),
          cr_categoriesCount = length cts,
          cr_categoryBreakdown = map (with_percentage grandTotal) cts\<rparr>)"

definition categoryReport :: "store \<Rightarrow> object_id \<Rightarrow> date \<Rightarrow> date \<Rightarrow> category_report" where
  \<comment> \<open>the body of the handler once the query has passed validation\<close>
  "categoryReport db uid s e = category_assemble s e (categoryTotals db uid s e)"

definition getCategoryReport ::
  "zone \<Rightarrow> clock \<Rightarrow> store \<Rightarrow> object_id \<Rightarrow> report_query \<Rightarrow> error + category_report" where
  \<comment> \<open>the handler has the zone and the clock at hand, as every handler, and uses neither\<close>
  "getCategoryReport z clk db uid q =
     (case reportQuerySchema_validate q of
        Inl errs \<Rightarrow> Inl (ValidationError errs)
      | Inr (s, e) \<Rightarrow> Inr (categoryReport db uid s e))"

section \<open>Monthly report\<close>

text \<open>
  A numeric query parameter reaches the controller as the result of \<^verbatim>\<open>parseInt\<close>:
  \<open>None\<close> stands for \<^verbatim>\<open>NaN\<close> (the parameter is absent or does not start with a number).
  \<^verbatim>\<open>parseInt(s) || d\<close> takes the default \<open>d\<close> for \<^verbatim>\<open>NaN\<close> and for 0.
\<close>

definition or_default :: "int option \<Rightarrow> int \<Rightarrow> int" where
  "or_default p d = (case p of None \<Rightarrow> d | Some v \<Rightarrow> if v = 0 then d else v)"

record month_total =
  mt_month :: int
  mt_totalAmount :: double
  mt_count :: nat
  mt_avgAmount :: double

record month_item =
  mi_month :: nat
  mi_monthName :: string
  mi_totalAmount :: double
  mi_count :: nat
  mi_avgAmount :: double

record monthly_report =
  mr_year :: int
  mr_yearlyTotal :: double
  mr_yearlyCount :: nat
  mr_monthlyAverage :: double
  mr_activeMonths :: nat
  mr_monthlyBreakdown :: "month_item list"

definition monthly_match :: "zone \<Rightarrow> store \<Rightarrow> object_id \<Rightarrow> int \<Rightarrow> expense list" where
  "monthly_match z db uid year =
     filter (\<lambda>x. userId x = uid \<and> new_Date z year 0 1 \<le> date x \<and> date x \<le> new_Date z year 11 31)
       db"

definition month_group :: "int \<times> expense list \<Rightarrow> month_total" where
  "month_group g =
     \<lparr>mt_month = fst g,
      mt_totalAmount = mongo_round2 (mongo_sum (snd g)),
      mt_count = length (snd g),
      mt_avgAmount = mongo_round2 (mongo_avg (snd g))\<rparr>"

definition monthlyTotals :: "zone \<Rightarrow> store \<Rightarrow> object_id \<Rightarrow> int \<Rightarrow> month_total list" where
  "monthlyTotals z db uid year =
     sort_key mt_month
       (map month_group (group_by (\<lambda>x. utc_month (date x)) (monthly_match z db uid year)))"

definition monthNames :: "string list" where
  "monthNames =
     [''January'', ''February'', ''March'', ''April'', ''May'', ''June'', ''July'',
      ''August'', ''September'', ''October'', ''November'', ''December'']"

definition fill_month :: "month_total list \<Rightarrow> nat \<times> string \<Rightarrow> month_item" where
  \<comment> \<open>the callback of \<^verbatim>\<open>monthNames.map((name, index) => ...)\<close>\<close>
  "fill_month mts p =
     (let index = fst p;
          name = snd p;
          monthData = find (\<lambda>m. mt_month m = int index + 1) mts
      in \<lparr>mi_month = index + 1,
          mi_monthName = name,
          mi_totalAmount = (case monthData of Some m \<Rightarrow> mt_totalAmount m | None \<Rightarrow> 0),
          mi_count = (case monthData of Some m \<Rightarrow> mt_count m | None \<Rightarrow> 0),
          mi_avgAmount = (case monthData of Some m \<Rightarrow> mt_avgAmount m | None \<Rightarrow> 0)\<rparr>)"

definition monthly_assemble :: "int \<Rightarrow> month_total list \<Rightarrow> monthly_report" where
  "monthly_assemble year mts =
     (let completeMonthlyData = map (fill_month mts) (enumerate 0 monthNames);
          yearlyTotal = foldl (\<lambda>sum m. fadd sum (mt_totalAmount m)) 0 mts;
          yearlyCount = foldl (\<lambda>sum m. sum + mt_count m) 0 mts
      in \<lparr>mr_year = year,
          mr_yearlyTotal = round2 yearlyTotal,
          mr_yearlyCount = yearlyCount,
          mr_monthlyAverage = round2 (fdiv yearlyTotal 12),
          mr_activeMonths = length mts,
          mr_monthlyBreakdown = completeMonthlyData\<rparr>)"

definition getMonthlyReport ::
  "zone \<Rightarrow> clock \<Rightarrow> store \<Rightarrow> object_id \<Rightarrow> int option \<Rightarrow> monthly_report" where
  \<comment> \<open>\<^verbatim>\<open>parseInt(req.query.year) || new Date().getFullYear()\<close>\<close>
  "getMonthlyReport z clk db uid year_param =
     (let year = or_default year_param (getFullYear z (clk 0))
      in monthly_assemble year (monthlyTotals z db uid year))"

section \<open>Trend report\<close>

record day_total =
  dt_date :: date
  dt_totalAmount :: double
  dt_count :: nat
  dt_categoriesCount :: nat

record top_category =
  tc_category :: ExpenseCategory
  tc_totalAmount :: double
  tc_count :: nat

record trend_report =
  tr_days :: int
  tr_startDate :: date
  tr_endDate :: date
  tr_periodTotal :: double
  tr_periodCount :: nat
  tr_dailyAverage :: double
  tr_activeDays :: nat
  tr_dailyTrends :: "day_total list"
  tr_topCategories :: "top_category list"

definition trend_match :: "store \<Rightarrow> object_id \<Rightarrow> date \<Rightarrow> expense list" where
  "trend_match db uid startDate = filter (\<lambda>x. userId x = uid \<and> startDate \<le> date x) db"

definition day_key :: "expense \<Rightarrow> int \<times> int \<times> int" where
  "day_key x = (utc_year (date x), utc_month (date x), utc_dayOfMonth (date x))"

definition day_group :: "(int \<times> int \<times> int) \<times> expense list \<Rightarrow> day_total" where
  "day_group g =
     \<lparr>dt_date = dateFromParts (fst g),
      dt_totalAmount = mongo_round2 (mongo_sum (snd g)),
      dt_count = length (snd g),
      dt_categoriesCount = length (remdups (map category (snd g)))\<rparr>"

definition dailyTrends :: "store \<Rightarrow> object_id \<Rightarrow> date \<Rightarrow> day_total list" where
  "dailyTrends db uid startDate =
     sort_key dt_date (map day_group (group_by day_key (trend_match db uid startDate)))"

definition top_group :: "ExpenseCategory \<times> expense list \<Rightarrow> top_category" where
  "top_group g =
     \<lparr>tc_category = fst g,
      tc_totalAmount = mongo_round2 (mongo_sum (snd g)),
      tc_count = length (snd g)\<rparr>"

definition topCategories :: "expense list \<Rightarrow> top_category list" where
  \<comment> \<open>\<^verbatim>\<open>$group\<close> by category, \<^verbatim>\<open>$project\<close>, \<^verbatim>\<open>$sort\<close> by total descending, \<^verbatim>\<open>$limit\<close> 5\<close>
  "topCategories matched =
     take 5 (sort_key (\<lambda>c. - tc_totalAmount c) (map top_group (group_by category matched)))"

definition trend_assemble ::
  "int \<Rightarrow> date \<Rightarrow> date \<Rightarrow> day_total list \<Rightarrow> top_category list \<Rightarrow> trend_report" where
  "trend_assemble days startDate endDate dts tops =
     (let periodTotal = foldl (\<lambda>sum d. fadd sum (dt_totalAmount d)) 0 dts;
          periodCount = foldl (\<lambda>sum d. sum + dt_count d) 0 dts;
          dailyAverage = (if 0 < length dts then fdiv periodTotal (of_nat (length dts)) else 0)
      in \<lparr>tr_days = days,
          tr_startDate = startDate,
          tr_endDate = endDate,
          tr_periodTotal = round2 periodTotal,
          tr_periodCount = periodCount,
          tr_dailyAverage = round2 dailyAverage,
          tr_activeDays = length dts,
          tr_dailyTrends = dts,
          tr_topCategories = tops\<rparr>)"

definition getExpenseTrends ::
  "zone \<Rightarrow> clock \<Rightarrow> store \<Rightarrow> object_id \<Rightarrow> int option \<Rightarrow> trend_report" where
  \<comment> \<open>the first reading of the clock gives the start of the window, the second one the
      \<^verbatim>\<open>endDate\<close> of the response\<close>
  "getExpenseTrends z clk db uid days_param =
     (let days = or_default days_param 30;
          startDate = minus_days z (clk 0) days
      in trend_assemble days startDate (clk 1)
           (dailyTrends db uid startDate)
           (topCategories (trend_match db uid startDate)))"

section \<open>Summary report\<close>

record total_stats =
  ts_totalAmount :: double
  ts_count :: nat
  ts_avgAmount :: double
  ts_minAmount :: double
  ts_maxAmount :: double

record month_stats =
  ms_totalAmount :: double
  ms_count :: nat

record recent_expense =
  re_id :: object_id
  re_title :: string
  re_amount :: double
  re_date :: date
  re_category :: ExpenseCategory

record summary_report =
  sr_totalExpenses :: double
  sr_totalCount :: nat
  sr_averageExpense :: double
  sr_minExpense :: double
  sr_maxExpense :: double
  sr_monthTotalAmount :: double
  sr_monthCount :: nat
  sr_topCategories :: "top_category list"
  sr_recentExpenses :: "recent_expense list"

definition user_match :: "store \<Rightarrow> object_id \<Rightarrow> expense list" where
  "user_match db uid = filter (\<lambda>x. userId x = uid) db"

definition totalExpenses :: "store \<Rightarrow> object_id \<Rightarrow> total_stats list" where
  \<comment> \<open>\<^verbatim>\<open>$group\<close> with \<^verbatim>\<open>_id: null\<close>: one document, none when nothing matches\<close>
  "totalExpenses db uid =
     (case user_match db uid of
        [] \<Rightarrow> []
      | x # xs \<Rightarrow>
          [\<lparr>ts_totalAmount = mongo_sum (x # xs),
            ts_count = length (x # xs),
            ts_avgAmount = mongo_avg (x # xs),
            ts_minAmount = fold min (map amount xs) (amount x),
            ts_maxAmount = fold max (map amount xs) (amount x)\<rparr>])"

definition currentMonthExpenses :: "zone \<Rightarrow> clock \<Rightarrow> store \<Rightarrow> object_id \<Rightarrow> month_stats list" where
  \<comment> \<open>the bounds read the clock four times, in the order in which the source writes them\<close>
  "currentMonthExpenses z clk db uid =
     (case filter (\<lambda>x. userId x = uid
                     \<and> new_Date z (getFullYear z (clk 0)) (getMonth z (clk 1)) 1 \<le> date x
                     \<and> date x \<le> new_Date z (getFullYear z (clk 2)) (getMonth z (clk 3) + 1) 0)
             db of
        [] \<Rightarrow> []
      | x # xs \<Rightarrow> [\<lparr>ms_totalAmount = mongo_sum (x # xs), ms_count = length (x # xs)\<rparr>])"

definition select_recent :: "expense \<Rightarrow> recent_expense" where
  \<comment> \<open>\<^verbatim>\<open>.select("title amount date category")\<close>, which keeps the id\<close>
  "select_recent x =
     \<lparr>re_id = exp_id x, re_title = title x, re_amount = amount x, re_date = date x,
      re_category = category x\<rparr>"

definition recentExpenses :: "store \<Rightarrow> object_id \<Rightarrow> recent_expense list" where
  \<comment> \<open>\<^verbatim>\<open>find({ userId }).sort({ createdAt: -1 }).limit(5)\<close>\<close>
  "recentExpenses db uid =
     map select_recent (take 5 (sort_key (\<lambda>x. - createdAt x) (user_match db uid)))"

definition getExpenseSummary :: "zone \<Rightarrow> clock \<Rightarrow> store \<Rightarrow> object_id \<Rightarrow> summary_report" where
  "getExpenseSummary z clk db uid =
     (let totalStats =
            (case totalExpenses db uid of
               s # _ \<Rightarrow> s
             | [] \<Rightarrow> \<lparr>ts_totalAmount = 0, ts_count = 0, ts_avgAmount = 0,
                      ts_minAmount = 0, ts_maxAmount = 0\<rparr>);
          currentMonthStats =
            (case currentMonthExpenses z clk db uid of
               s # _ \<Rightarrow> s
             | [] \<Rightarrow> \<lparr>ms_totalAmount = 0, ms_count = 0\<rparr>)
      in \<lparr>sr_totalExpenses = round2 (ts_totalAmount totalStats),
          sr_totalCount = ts_count totalStats,
          sr_averageExpense = round2 (ts_avgAmount totalStats),
          sr_minExpense = round2 (ts_minAmount totalStats),
          sr_maxExpense = round2 (ts_maxAmount totalStats),
          sr_monthTotalAmount = round2 (ms_totalAmount currentMonthStats),
          sr_monthCount = ms_count currentMonthStats,
          sr_topCategories = topCategories (user_match db uid),
          sr_recentExpenses = recentExpenses db uid\<rparr>)"

section \<open>Sample data\<close>

text \<open>
  Concrete records, zones and clocks for the instances evaluated below.  An amount that
  the client writes as the decimal \<open>0.42\<close> is stored as the double \<open>rd (42 / 100)\<close>.
\<close>

definition sample_expense ::
  "object_id \<Rightarrow> object_id \<Rightarrow> double \<Rightarrow> date \<Rightarrow> ExpenseCategory \<Rightarrow> expense" where
  "sample_expense i u a d cat =
     \<lparr>exp_id = i, title = ''sample'', amount = a, date = d, category = cat,
      exp_notes = None, userId = u, createdAt = d\<rparr>"

definition fixed_zone :: "int \<Rightarrow> zone" where
  \<comment> \<open>a server whose local time is UTC plus a constant number of milliseconds\<close>
  "fixed_zone off = \<lparr>local_of_utc = (\<lambda>t. t + off), utc_of_local = (\<lambda>l. l - off)\<rparr>"

definition utc_zone :: zone where
  "utc_zone = fixed_zone 0"

definition sample_dst_zone :: zone where
  \<comment> \<open>four hours behind UTC until 2024-11-03T06:00Z, when the clocks go back from 02:00 to
      01:00, and five hours behind afterwards; a local time that occurs twice is read as the
      earlier instant\<close>
  "sample_dst_zone =
     \<lparr>local_of_utc = (\<lambda>t. if t < 1730613600000 then t - 14400000 else t - 18000000),
      utc_of_local = (\<lambda>l. if l < 1730599200000 then l + 14400000 else l + 18000000)\<rparr>"

definition at_time :: "date \<Rightarrow> clock" where
  \<comment> \<open>a request so short that every reading of the clock gives the same instant\<close>
  "at_time t = (\<lambda>k. t)"

definition date_range :: "date \<Rightarrow> date \<Rightarrow> report_query" where
  "date_range s e = \<lparr>q_startDate = DateValue s, q_endDate = DateValue e, q_unknown = []\<rparr>"

section \<open>Isolation between users\<close>

lemma filter_user_idem:
  "filter (\<lambda>x. userId x = A \<and> P x) (filter (\<lambda>x. userId x = A) db)
     = filter (\<lambda>x. userId x = A \<and> P x) db"
  by (induction db) auto

lemma user_match_idem: "user_match (user_match db A) A = user_match db A"
  by (simp add: user_match_def)

lemma category_match_user: "category_match (user_match db A) A s e = category_match db A s e"
  unfolding category_match_def user_match_def by (rule filter_user_idem)

lemma monthly_match_user: "monthly_match z (user_match db A) A y = monthly_match z db A y"
  unfolding monthly_match_def user_match_def by (rule filter_user_idem)

lemma trend_match_user: "trend_match (user_match db A) A t = trend_match db A t"
  unfolding trend_match_def user_match_def by (rule filter_user_idem)

lemma currentMonth_user:
  "currentMonthExpenses z clk (user_match db A) A = currentMonthExpenses z clk db A"
  unfolding currentMonthExpenses_def user_match_def by (simp only: filter_user_idem)

text \<open>
  Claim C1.  Each of the four reports asked for user \<open>A\<close> gives the same result on the whole
  collection as on the collection restricted to the records whose owner is \<open>A\<close>
  (\<open>user_match db A\<close>): the records of any other user neither appear in nor change the
  report.
\<close>

theorem report_isolation:
  "getCategoryReport z clk (user_match db A) A q = getCategoryReport z clk db A q
   \<and> getMonthlyReport z clk (user_match db A) A year_param
       = getMonthlyReport z clk db A year_param
   \<and> getExpenseTrends z clk (user_match db A) A days_param
       = getExpenseTrends z clk db A days_param
   \<and> getExpenseSummary z clk (user_match db A) A = getExpenseSummary z clk db A"
  by (simp add: getCategoryReport_def categoryReport_def categoryTotals_def category_match_user
      getMonthlyReport_def monthlyTotals_def monthly_match_user
      getExpenseTrends_def dailyTrends_def trend_match_user
      getExpenseSummary_def totalExpenses_def recentExpenses_def user_match_idem
      currentMonth_user split: sum.splits prod.splits)

section \<open>Validation of the category query\<close>

text \<open>
  Claim C5.  When the start date is missing, the end date is missing, or the end date is
  strictly before the start date, the category report is a validation error, and it is the
  same error whatever the collection holds and whoever asks: the result is decided by the
  query alone, no report is assembled and the collection is not read.
\<close>

theorem category_validation_first:
  assumes "q_startDate q = Absent \<or> q_endDate q = Absent
           \<or> (\<exists>s e. q_startDate q = DateValue s \<and> q_endDate q = DateValue e \<and> e < s)"
  shows "\<exists>errs. \<forall>z clk db uid. getCategoryReport z clk db uid q = Inl (ValidationError errs)"
proof -
  from assms obtain errs where "reportQuerySchema_validate q = Inl errs"
    by (cases "q_startDate q"; cases "q_endDate q")
      (auto simp: reportQuerySchema_validate_def)
  then show ?thesis by (auto simp: getCategoryReport_def)
qed

theorem category_validation_first_witness:
  "\<exists>errs. \<forall>z clk db uid. getCategoryReport z clk db uid
      \<lparr>q_startDate = DateValue 1722470400000, q_endDate = Absent, q_unknown = []\<rparr>
        = Inl (ValidationError errs)"
  using category_validation_first
    [of "\<lparr>q_startDate = DateValue 1722470400000, q_endDate = Absent, q_unknown = []\<rparr>"]
  by simp

section \<open>Grouping\<close>

lemma set_group_by:
  "set (group_by f xs) = (\<lambda>k. (k, filter (\<lambda>x. f x = k) xs)) ` f ` set xs"
  by (simp add: group_by_def)

lemma length_group_by: "length (group_by f xs) = card (f ` set xs)"
  by (simp add: group_by_def length_remdups_card_conv)

lemma group_by_keys: "map fst (group_by f xs) = remdups (map f xs)"
  by (simp add: group_by_def comp_def)

lemma group_nonempty: "g \<in> set (group_by f xs) \<Longrightarrow> snd g \<noteq> []"
  by (auto simp: set_group_by filter_empty_conv)

lemma month_of_mp: "1 \<le> (mp + 2) mod 12 + 1 \<and> (mp + 2) mod 12 + 1 \<le> (12::int)"
  by simp

lemma utc_month_range: "1 \<le> utc_month t \<and> utc_month t \<le> 12"
  unfolding utc_month_def civil_from_days_def Let_def fst_conv snd_conv
  by (rule month_of_mp)

section \<open>Facts about the arithmetic of doubles\<close>

lemma rd_0: "rd 0 = 0"
  by (simp add: rd_def)

lemma Math_round_0: "Math_round 0 = 0"
  unfolding Math_round_def by (rule floor_unique) simp_all

lemma round2_0: "round2 0 = 0"
  by (simp add: round2_def fmul_def fdiv_def rd_0 Math_round_0)

lemma two_places_0: "two_places 0"
  unfolding two_places_def by (rule exI [where x = 0]) (simp add: rd_0)

lemma two_places_round2: "two_places (round2 x)"
  unfolding two_places_def round2_def fdiv_def by (rule exI) (rule refl)

lemma two_places_mongo_round2: "two_places (mongo_round2 x)"
  unfolding two_places_def mongo_round2_def by (rule exI) (rule refl)

lemma two_places_percentage: "two_places (percentage t G)"
proof (cases "0 < G")
  case True
  then have "percentage t G
      = rd (of_int (Math_round (fmul (fmul (fdiv t G) 100) 100)) / 100)"
    by (simp add: percentage_def fdiv_def)
  then show ?thesis unfolding two_places_def by (rule exI)
next
  case False
  then show ?thesis by (simp add: percentage_def two_places_0)
qed

lemma Math_round_close: "\<bar>of_int (Math_round z) - z\<bar> \<le> 1 / 2"
proof -
  have "of_int \<lfloor>z + 1 / 2\<rfloor> \<le> z + 1 / 2" by (rule of_int_floor_le)
  moreover have "z + 1 / 2 < of_int \<lfloor>z + 1 / 2\<rfloor> + 1"
    using floor_correct [of "z + 1 / 2"] by simp
  ultimately show ?thesis unfolding Math_round_def by linarith
qed

lemma round_half_even_close: "\<bar>of_int (round_half_even y) - y\<bar> \<le> 1 / 2"
proof -
  define f where "f = \<lfloor>y\<rfloor>"
  define r where "r = y - of_int f"
  have r0: "0 \<le> r" unfolding r_def f_def using of_int_floor_le [of y] by simp
  have r1: "r < 1" unfolding r_def f_def using floor_correct [of y] by simp
  have y: "y = of_int f + r" by (simp add: r_def)
  have "round_half_even y = (if r < 1 / 2 then f else if 1 / 2 < r then f + 1
                             else if even f then f else f + 1)"
    by (simp add: round_half_even_def Let_def f_def r_def)
  then consider "round_half_even y = f" "r \<le> 1 / 2"
    | "round_half_even y = f + 1" "1 / 2 \<le> r"
    by (cases "r < 1 / 2"; cases "1 / 2 < r"; cases "even f") simp_all
  then show ?thesis
  proof cases
    case 1
    with r0 show ?thesis unfolding y by simp
  next
    case 2
    with r1 show ?thesis unfolding y by simp
  qed
qed

lemma ilog2_le:
  assumes "0 < a"
  shows "2 powi (ilog2 a) \<le> a"
proof (cases "1 \<le> a")
  case True
  let ?n = "\<lfloor>a\<rfloor>"
  from True have n: "0 < ?n" by simp
  from bitlen_bounds [OF n] have lo: "2 ^ nat (bitlen ?n - 1) \<le> ?n" and hi: "?n < 2 ^ nat (bitlen ?n)"
    by blast+
  have "1 \<le> bitlen ?n"
  proof (rule ccontr)
    assume "\<not> 1 \<le> bitlen ?n"
    then have "nat (bitlen ?n) = 0" by simp
    with hi n show False by simp
  qed
  then have "(2::rat) powi (bitlen ?n - 1) = 2 ^ nat (bitlen ?n - 1)"
    by (simp add: power_int_def)
  also have "\<dots> = of_int (2 ^ nat (bitlen ?n - 1))" by simp
  also have "\<dots> \<le> of_int ?n" using lo by (simp only: of_int_le_iff)
  also have "\<dots> \<le> a" by (rule of_int_floor_le)
  finally show ?thesis using True by (simp add: ilog2_def)
next
  case False
  let ?m = "\<lceil>1 / a\<rceil> - 1"
  from False assms have "1 < 1 / a" by simp
  then have "1 < \<lceil>1 / a\<rceil>" by (simp add: less_ceiling_iff)
  then have m: "0 < ?m" by simp
  from bitlen_bounds [OF m] have hi: "?m < 2 ^ nat (bitlen ?m)" by blast
  have b1: "1 \<le> bitlen ?m"
  proof (rule ccontr)
    assume "\<not> 1 \<le> bitlen ?m"
    then have "nat (bitlen ?m) = 0" by simp
    with hi m show False by simp
  qed
  from hi have "\<lceil>1 / a\<rceil> \<le> 2 ^ nat (bitlen ?m)" by simp
  then have "of_int \<lceil>1 / a\<rceil> \<le> (of_int (2 ^ nat (bitlen ?m)) :: rat)"
    by (simp only: of_int_le_iff)
  with le_of_int_ceiling [of "1 / a"]
  have "1 / a \<le> (of_int (2 ^ nat (bitlen ?m)) :: rat)" by (rule order_trans)
  moreover have "(of_int (2 ^ nat (bitlen ?m)) :: rat) = 2 ^ nat (bitlen ?m)" by simp
  ultimately have "1 / a \<le> 2 ^ nat (bitlen ?m)" by (simp only:)
  then have "1 / 2 ^ nat (bitlen ?m) \<le> a"
    using assms by (simp add: field_simps)
  moreover have "(2::rat) powi (- bitlen ?m) = 1 / 2 ^ nat (bitlen ?m)"
    using b1 by (simp add: power_int_def field_simps)
  ultimately show ?thesis using False by (simp add: ilog2_def)
qed

lemma rd_close:
  "\<bar>rd x - x\<bar> \<le> \<bar>x\<bar> / 2 ^ 53"
proof (cases "x = 0")
  case True
  then show ?thesis by (simp add: rd_0)
next
  case False
  define a where "a = \<bar>x\<bar>"
  define s :: rat where "s = 2 powi (ilog2 a - 52)"
  define m where "m = round_half_even (a / s)"
  from False have a: "0 < a" by (simp add: a_def)
  have s: "0 < s" by (simp add: s_def)
  have "s = 2 powi (ilog2 a) / 2 powi 52"
    unfolding s_def by (rule power_int_diff) simp
  also have "\<dots> \<le> a / 2 powi 52"
    using ilog2_le [OF a] by (simp add: divide_right_mono)
  finally have sa: "s \<le> a / 2 ^ 52" by simp
  have "\<bar>of_int m - a / s\<bar> \<le> 1 / 2"
    unfolding m_def by (rule round_half_even_close)
  then have "\<bar>of_int m - a / s\<bar> * s \<le> 1 / 2 * s"
    using s by (simp only: mult_le_cancel_right_pos)
  moreover have "of_int m * s - a = (of_int m - a / s) * s"
    using s by (simp add: field_simps)
  then have "\<bar>of_int m - a / s\<bar> * s = \<bar>of_int m * s - a\<bar>"
    using s by (simp add: abs_mult)
  ultimately have e: "\<bar>of_int m * s - a\<bar> \<le> s / 2" by simp
  have "rd x = sgn x * of_int m * s"
    using False by (simp add: rd_def Let_def m_def s_def a_def)
  then have "rd x - x = sgn x * (of_int m * s - a)"
    by (simp add: a_def algebra_simps flip: abs_sgn) (simp add: mult.commute abs_sgn)
  then have "\<bar>rd x - x\<bar> = \<bar>of_int m * s - a\<bar>"
    using False by (simp add: abs_mult abs_sgn_eq)
  with e sa show ?thesis unfolding a_def by simp
qed

lemma rd_nonneg: "0 \<le> x \<Longrightarrow> 0 \<le> rd x"
proof -
  assume x: "0 \<le> x"
  have "x / 2 ^ 53 \<le> x" using x by (simp add: field_simps)
  with rd_close [of x] x show ?thesis by (simp add: abs_if split: if_splits)
qed

lemma rd_pos: "0 < x \<Longrightarrow> 0 < rd x"
proof -
  assume x: "0 < x"
  have "x / 2 ^ 53 < x" using x by (simp add: field_simps)
  with rd_close [of x] x show ?thesis by (simp add: abs_if split: if_splits)
qed

lemma unit_roundoff_bounds: "0 < unit_roundoff" "unit_roundoff \<le> 1 / 10 ^ 15"
  by (simp_all add: unit_roundoff_def)

lemma rd_rel:
  assumes "0 \<le> x"
  shows "x * (1 - unit_roundoff) \<le> rd x" and "rd x \<le> x * (1 + unit_roundoff)"
  using rd_close [of x] assms
  by (simp_all add: unit_roundoff_def algebra_simps abs_if split: if_splits)

lemma rd_abs: "\<bar>rd x - x\<bar> \<le> \<bar>x\<bar> * unit_roundoff"
  using rd_close [of x] by (simp add: unit_roundoff_def)

lemma pow9_bounds:
  "1 - 9 * unit_roundoff \<le> (1 - unit_roundoff) ^ 9"
  "(1 + unit_roundoff) ^ 9 \<le> 1 + 10 * unit_roundoff"
  by (simp_all add: unit_roundoff_def power_divide)

lemma pow_bounds:
  assumes "n \<le> 9"
  shows "1 - 9 * unit_roundoff \<le> (1 - unit_roundoff) ^ n"
    and "(1 + unit_roundoff) ^ n \<le> 1 + 10 * unit_roundoff"
proof -
  have "(1 - unit_roundoff) ^ 9 \<le> (1 - unit_roundoff) ^ n"
    using assms by (intro power_decreasing) (simp_all add: unit_roundoff_def)
  with pow9_bounds(1) show "1 - 9 * unit_roundoff \<le> (1 - unit_roundoff) ^ n" by simp
  have "(1 + unit_roundoff) ^ n \<le> (1 + unit_roundoff) ^ 9"
    using assms by (intro power_increasing) (simp_all add: unit_roundoff_def)
  with pow9_bounds(2) show "(1 + unit_roundoff) ^ n \<le> 1 + 10 * unit_roundoff" by simp
qed

lemma foldl_fadd_bounds:
  assumes "0 \<le> a" and "\<And>t. t \<in> set ts \<Longrightarrow> 0 \<le> t"
  shows "(a + sum_list ts) * (1 - unit_roundoff) ^ length ts \<le> foldl fadd a ts
       \<and> foldl fadd a ts \<le> (a + sum_list ts) * (1 + unit_roundoff) ^ length ts"
  using assms
proof (induction ts arbitrary: a)
  case Nil
  then show ?case by simp
next
  case (Cons t ts)
  define u :: rat where "u = unit_roundoff"
  have u: "0 \<le> u" "u \<le> 1" by (simp_all add: u_def unit_roundoff_def)
  have t: "0 \<le> t" by (rule Cons.prems) simp
  have ts: "0 \<le> sum_list ts" by (rule sum_list_nonneg) (simp add: Cons.prems)
  have at: "0 \<le> a + t" using Cons.prems(1) t by simp
  then have a': "0 \<le> rd (a + t)" by (rule rd_nonneg)
  have IH: "(rd (a + t) + sum_list ts) * (1 - u) ^ length ts \<le> foldl fadd (rd (a + t)) ts
       \<and> foldl fadd (rd (a + t)) ts \<le> (rd (a + t) + sum_list ts) * (1 + u) ^ length ts"
    unfolding u_def by (rule Cons.IH [OF a']) (simp add: Cons.prems)
  have lo: "(a + t) * (1 - u) \<le> rd (a + t)" and hi: "rd (a + t) \<le> (a + t) * (1 + u)"
    unfolding u_def by (rule rd_rel [OF at])+
  have "(a + t + sum_list ts) * (1 - u) \<le> rd (a + t) + sum_list ts"
  proof -
    have "sum_list ts * (1 - u) \<le> sum_list ts" using ts u by (simp add: mult_left_le)
    with lo show ?thesis by (simp add: algebra_simps)
  qed
  then have "(a + t + sum_list ts) * (1 - u) * (1 - u) ^ length ts
               \<le> (rd (a + t) + sum_list ts) * (1 - u) ^ length ts"
    using u by (intro mult_right_mono) simp_all
  with IH have L: "(a + t + sum_list ts) * (1 - u) * (1 - u) ^ length ts
               \<le> foldl fadd (rd (a + t)) ts" by linarith
  have "rd (a + t) + sum_list ts \<le> (a + t + sum_list ts) * (1 + u)"
  proof -
    have "sum_list ts \<le> sum_list ts * (1 + u)" using ts u by (simp add: mult_left_le algebra_simps)
    with hi show ?thesis by (simp add: algebra_simps)
  qed
  then have "(rd (a + t) + sum_list ts) * (1 + u) ^ length ts
               \<le> (a + t + sum_list ts) * (1 + u) * (1 + u) ^ length ts"
    using u by (intro mult_right_mono) simp_all
  with IH have H: "foldl fadd (rd (a + t)) ts
               \<le> (a + t + sum_list ts) * (1 + u) * (1 + u) ^ length ts" by linarith
  have e: "foldl fadd a (t # ts) = foldl fadd (rd (a + t)) ts"
    by (simp only: foldl_Cons) (simp only: fadd_def [of a t])
  have s: "a + sum_list (t # ts) = a + t + sum_list ts" by simp
  have p: "\<And>x::rat. x ^ length (t # ts) = x * x ^ length ts" by simp
  from L H show ?case
    unfolding e s p u_def by (simp only: mult.assoc) 
qed

section \<open>The records behind each category\<close>

lemma breakdown_set:
  "set (cr_categoryBreakdown (categoryReport db uid s e))
     = (\<lambda>g. with_percentage (foldl (\<lambda>sum c. fadd sum (ct_totalAmount c)) 0
                                (categoryTotals db uid s e)) (category_group g))
         ` set (group_by category (category_match db uid s e))"
  by (simp add: categoryReport_def category_assemble_def Let_def categoryTotals_def image_image)

text \<open>
  Claim C10.  When the query is valid, the category report is produced, and every entry of
  its breakdown carries, besides the aggregate fields, the list \<open>ci_expenses\<close> with one item
  for every record of the user that is dated within the range and has the entry's
  category; the item holds the id, the title, the amount and the date of that record.
  The categories of the entries are exactly the categories of those records, so every
  matched record is listed.
\<close>

theorem category_breakdown_lists_records:
  assumes "reportQuerySchema_validate q = Inr (s, e)"
  shows "\<exists>r. getCategoryReport z clk db uid q = Inr r
     \<and> map ci_expenses (cr_categoryBreakdown r)
         = map (\<lambda>b. map (\<lambda>x. \<lparr>er_id = exp_id x, er_title = title x,
                                er_amount = amount x, er_date = date x\<rparr>)
                  (filter (\<lambda>x. category x = ci_category b)
                     (filter (\<lambda>x. userId x = uid \<and> s \<le> date x \<and> date x \<le> e) db)))
             (cr_categoryBreakdown r)
     \<and> set (map ci_category (cr_categoryBreakdown r))
         = category ` set (filter (\<lambda>x. userId x = uid \<and> s \<le> date x \<and> date x \<le> e) db)"
proof -
  let ?r = "categoryReport db uid s e"
  have r: "getCategoryReport z clk db uid q = Inr ?r"
    by (simp add: getCategoryReport_def assms)
  have a: "map ci_expenses (cr_categoryBreakdown ?r)
         = map (\<lambda>b. map (\<lambda>x. \<lparr>er_id = exp_id x, er_title = title x,
                                er_amount = amount x, er_date = date x\<rparr>)
                  (filter (\<lambda>x. category x = ci_category b)
                     (filter (\<lambda>x. userId x = uid \<and> s \<le> date x \<and> date x \<le> e) db)))
             (cr_categoryBreakdown ?r)"
    unfolding map_eq_conv breakdown_set
    by (simp add: set_group_by with_percentage_def category_group_def push_expense_def
        category_match_def)
  have b: "set (map ci_category (cr_categoryBreakdown ?r))
         = category ` set (filter (\<lambda>x. userId x = uid \<and> s \<le> date x \<and> date x \<le> e) db)"
    unfolding set_map breakdown_set
    by (simp add: set_group_by image_image with_percentage_def category_group_def
        category_match_def)
  from r a b show ?thesis by blast
qed

theorem category_breakdown_lists_records_witness:
  "\<exists>r. getCategoryReport utc_zone (at_time 1735732800000)
          [sample_expense 1 7 10 1722513600000 FOOD, sample_expense 2 7 20 1722600000000 FOOD,
           sample_expense 3 7 30 1722686400000 SHOPPING] 7
          (date_range 1722470400000 1725062400000) = Inr r
     \<and> map ci_expenses (cr_categoryBreakdown r)
         = map (\<lambda>b. map (\<lambda>x. \<lparr>er_id = exp_id x, er_title = title x,
                                er_amount = amount x, er_date = date x\<rparr>)
                  (filter (\<lambda>x. category x = ci_category b)
                     (filter (\<lambda>x. userId x = 7 \<and> 1722470400000 \<le> date x
                                   \<and> date x \<le> 1725062400000)
                        [sample_expense 1 7 10 1722513600000 FOOD,
                         sample_expense 2 7 20 1722600000000 FOOD,
                         sample_expense 3 7 30 1722686400000 SHOPPING])))
             (cr_categoryBreakdown r)
     \<and> set (map ci_category (cr_categoryBreakdown r))
         = category ` set (filter (\<lambda>x. userId x = 7 \<and> 1722470400000 \<le> date x
                                   \<and> date x \<le> 1725062400000)
                        [sample_expense 1 7 10 1722513600000 FOOD,
                         sample_expense 2 7 20 1722600000000 FOOD,
                         sample_expense 3 7 30 1722686400000 SHOPPING])"
  by (rule category_breakdown_lists_records)
    (simp add: reportQuerySchema_validate_def date_range_def)

section \<open>Monthly breakdown\<close>

lemma set_monthlyTotals:
  "set (monthlyTotals z db uid y)
     = month_group ` set (group_by (\<lambda>x. utc_month (date x)) (monthly_match z db uid y))"
  by (simp add: monthlyTotals_def)

lemma length_monthlyTotals:
  "length (monthlyTotals z db uid y)
     = card ((\<lambda>x. utc_month (date x)) ` set (monthly_match z db uid y))"
  by (simp add: monthlyTotals_def length_group_by)

lemma monthlyTotals_month:
  "(\<exists>m \<in> set (monthlyTotals z db uid y). mt_month m = k)
     \<longleftrightarrow> k \<in> (\<lambda>x. utc_month (date x)) ` set (monthly_match z db uid y)"
  by (auto simp: set_monthlyTotals set_group_by month_group_def)

lemma monthlyTotals_count:
  "m \<in> set (monthlyTotals z db uid y) \<Longrightarrow> 0 < mt_count m"
  by (auto simp: set_monthlyTotals month_group_def dest: group_nonempty)

lemma fill_month_fields:
  "mi_month (fill_month mts (i, n)) = i + 1"
  "mi_monthName (fill_month mts (i, n)) = n"
  by (simp_all add: fill_month_def Let_def)

lemma fill_month_empty:
  assumes "\<not> (\<exists>m \<in> set mts. mt_month m = int i + 1)"
  shows "mi_totalAmount (fill_month mts (i, n)) = 0 \<and> mi_count (fill_month mts (i, n)) = 0
         \<and> mi_avgAmount (fill_month mts (i, n)) = 0"
proof -
  from assms have "find (\<lambda>m. mt_month m = int i + 1) mts = None"
    by (simp add: find_None_iff)
  then show ?thesis by (simp add: fill_month_def Let_def)
qed

lemma fill_month_count:
  assumes "\<And>m. m \<in> set mts \<Longrightarrow> 0 < mt_count m"
  shows "0 < mi_count (fill_month mts (i, n)) \<longleftrightarrow> (\<exists>m \<in> set mts. mt_month m = int i + 1)"
proof (cases "find (\<lambda>m. mt_month m = int i + 1) mts")
  case None
  then have "\<not> (\<exists>m \<in> set mts. mt_month m = int i + 1)"
    by (simp add: find_None_iff)
  with None show ?thesis by (simp add: fill_month_def Let_def)
next
  case (Some m)
  then have "m \<in> set mts" "mt_month m = int i + 1"
    by (auto simp: find_Some_iff)
  with assms Some show ?thesis by (auto simp: fill_month_def Let_def)
qed

lemma mr_year_eq: "mr_year (getMonthlyReport z clk db uid yp) = or_default yp (getFullYear z (clk 0))"
  by (simp add: getMonthlyReport_def monthly_assemble_def Let_def)

lemma breakdown_eq:
  "mr_monthlyBreakdown (getMonthlyReport z clk db uid yp)
     = map (fill_month (monthlyTotals z db uid (or_default yp (getFullYear z (clk 0)))))
         (enumerate 0 monthNames)"
  by (simp add: getMonthlyReport_def monthly_assemble_def Let_def)

lemma enumerate_monthNames:
  "enumerate 0 monthNames =
     [(0, ''January''), (1, ''February''), (2, ''March''), (3, ''April''), (4, ''May''),
      (5, ''June''), (6, ''July''), (7, ''August''), (8, ''September''), (9, ''October''),
      (10, ''November''), (11, ''December'')]"
  by (simp add: monthNames_def)

text \<open>
  Claim C3.  The monthly breakdown has exactly twelve entries, numbered 1 to 12 in
  ascending order, each with its English month name; an entry whose month has no matched
  record reports total 0, count 0 and average 0.
\<close>

theorem monthly_breakdown_twelve:
  "map mi_month (mr_monthlyBreakdown (getMonthlyReport z clk db uid yp))
     = [1, 2, 3, 4, 5, 6, 7, 8, 9, 10, 11, 12]
   \<and> map mi_monthName (mr_monthlyBreakdown (getMonthlyReport z clk db uid yp))
     = [''January'', ''February'', ''March'', ''April'', ''May'', ''June'', ''July'',
        ''August'', ''September'', ''October'', ''November'', ''December'']
   \<and> (\<forall>b \<in> set (mr_monthlyBreakdown (getMonthlyReport z clk db uid yp)).
        filter (\<lambda>x. utc_month (date x) = int (mi_month b))
          (monthly_match z db uid (mr_year (getMonthlyReport z clk db uid yp))) = []
        \<longrightarrow> mi_totalAmount b = 0 \<and> mi_count b = 0 \<and> mi_avgAmount b = 0)"
proof (intro conjI ballI impI)
  show "map mi_month (mr_monthlyBreakdown (getMonthlyReport z clk db uid yp))
     = [1, 2, 3, 4, 5, 6, 7, 8, 9, 10, 11, 12]"
    by (simp add: breakdown_eq enumerate_monthNames fill_month_fields)
  show "map mi_monthName (mr_monthlyBreakdown (getMonthlyReport z clk db uid yp))
     = [''January'', ''February'', ''March'', ''April'', ''May'', ''June'', ''July'',
        ''August'', ''September'', ''October'', ''November'', ''December'']"
    by (simp add: breakdown_eq enumerate_monthNames fill_month_fields)
next
  fix b
  let ?y = "or_default yp (getFullYear z (clk 0))"
  assume b: "b \<in> set (mr_monthlyBreakdown (getMonthlyReport z clk db uid yp))"
    and e: "filter (\<lambda>x. utc_month (date x) = int (mi_month b))
          (monthly_match z db uid (mr_year (getMonthlyReport z clk db uid yp))) = []"
  have y: "mr_year (getMonthlyReport z clk db uid yp) = ?y"
    by (simp add: getMonthlyReport_def monthly_assemble_def Let_def)
  from b obtain i n where bi: "b = fill_month (monthlyTotals z db uid ?y) (i, n)"
    unfolding breakdown_eq by auto
  from e have "int i + 1 \<notin> (\<lambda>x. utc_month (date x)) ` set (monthly_match z db uid ?y)"
    by (auto simp: y bi fill_month_fields filter_empty_conv)
  then have "\<not> (\<exists>m \<in> set (monthlyTotals z db uid ?y). mt_month m = int i + 1)"
    by (simp only: monthlyTotals_month not_False_eq_True)
  from fill_month_empty [OF this]
  show "mi_totalAmount b = 0" "mi_count b = 0" "mi_avgAmount b = 0"
    unfolding bi by blast+
qed

theorem monthly_breakdown_twelve_witness:
  "length (mr_monthlyBreakdown
       (getMonthlyReport utc_zone (at_time 1735732800000)
          [sample_expense 1 7 (25 / 2) 1720008000000 FOOD] 7 (Some 2024))) = 12
   \<and> mi_month (hd (mr_monthlyBreakdown
       (getMonthlyReport utc_zone (at_time 1735732800000)
          [sample_expense 1 7 (25 / 2) 1720008000000 FOOD] 7 (Some 2024)))) = 1
   \<and> mi_count (hd (mr_monthlyBreakdown
       (getMonthlyReport utc_zone (at_time 1735732800000)
          [sample_expense 1 7 (25 / 2) 1720008000000 FOOD] 7 (Some 2024)))) = 0
   \<and> mi_totalAmount (hd (mr_monthlyBreakdown
       (getMonthlyReport utc_zone (at_time 1735732800000)
          [sample_expense 1 7 (25 / 2) 1720008000000 FOOD] 7 (Some 2024)))) = 0
   \<and> mi_avgAmount (hd (mr_monthlyBreakdown
       (getMonthlyReport utc_zone (at_time 1735732800000)
          [sample_expense 1 7 (25 / 2) 1720008000000 FOOD] 7 (Some 2024)))) = 0"
proof -
  let ?c = "at_time 1735732800000"
  let ?db = "[sample_expense 1 7 (25 / 2) 1720008000000 FOOD]"
  let ?R = "getMonthlyReport utc_zone ?c ?db 7 (Some 2024)"
  let ?B = "mr_monthlyBreakdown ?R"
  note t = monthly_breakdown_twelve [of utc_zone ?c ?db 7 "Some 2024"]
  note m = t [THEN conjunct1]
  have "length (map mi_month ?B) = 12" unfolding m by simp
  then have len: "length ?B = 12" by (simp only: length_map)
  then have ne: "?B \<noteq> []" by (cases ?B) simp_all
  then have h: "hd ?B \<in> set ?B" by (rule hd_in_set)
  have "mi_month (hd ?B) = hd (map mi_month ?B)" by (rule hd_map [OF ne, symmetric])
  then have h1: "mi_month (hd ?B) = 1" unfolding m by simp
  have y: "mr_year ?R = 2024"
    unfolding mr_year_eq by (simp add: or_default_def)
  have e: "filter (\<lambda>x. utc_month (date x) = 1) (monthly_match utc_zone ?db 7 2024) = []"
    by code_simp
  have e': "filter (\<lambda>x. utc_month (date x) = int (mi_month (hd ?B)))
          (monthly_match utc_zone ?db 7 (mr_year ?R)) = []"
    unfolding h1 y using e by (simp only: of_nat_1)
  from t [THEN conjunct2, THEN conjunct2, THEN bspec, OF h, THEN mp, OF e']
  have z: "mi_totalAmount (hd ?B) = 0 \<and> mi_count (hd ?B) = 0 \<and> mi_avgAmount (hd ?B) = 0" .
  show ?thesis
    using len h1 z by (intro conjI) (erule conjE | assumption)+
qed

section \<open>Monthly summary\<close>

lemma monthlyTotals_sorted: "sorted (map mt_month (monthlyTotals z db uid y))"
  unfolding monthlyTotals_def by (rule sorted_sort_key)

lemma monthlyTotals_months:
  "set (map mt_month (monthlyTotals z db uid y))
     = (\<lambda>x. utc_month (date x)) ` set (monthly_match z db uid y)"
  by (simp add: set_monthlyTotals set_group_by image_image month_group_def)

lemma monthlyTotals_distinct: "distinct (map mt_month (monthlyTotals z db uid y))"
proof -
  have "map mt_month (map month_group (group_by (\<lambda>x. utc_month (date x))
                                         (monthly_match z db uid y)))
          = remdups (map (\<lambda>x. utc_month (date x)) (monthly_match z db uid y))"
    by (simp add: group_by_def comp_def month_group_def)
  then have "distinct (map mt_month (map month_group (group_by (\<lambda>x. utc_month (date x))
                                         (monthly_match z db uid y))))"
    by simp
  then have "distinct (map month_group (group_by (\<lambda>x. utc_month (date x))
                                         (monthly_match z db uid y)))"
    and "inj_on mt_month (set (map month_group (group_by (\<lambda>x. utc_month (date x))
                                         (monthly_match z db uid y))))"
    by (simp_all only: distinct_map)
  then show ?thesis
    unfolding monthlyTotals_def by (simp add: distinct_map)
qed

lemma breakdown_indices:
  "map (fill_month mts) (enumerate 0 monthNames)
     = map (\<lambda>i. fill_month mts (i, monthNames ! i)) [0..<12]"
proof (rule nth_equalityI)
  have len: "length monthNames = 12" by (simp add: monthNames_def)
  show "length (map (fill_month mts) (enumerate 0 monthNames))
          = length (map (\<lambda>i. fill_month mts (i, monthNames ! i)) [0..<12])"
    by (simp add: len)
  fix i assume "i < length (map (fill_month mts) (enumerate 0 monthNames))"
  then have "i < 12" by (simp add: len)
  then show "map (fill_month mts) (enumerate 0 monthNames) ! i
               = map (\<lambda>i. fill_month mts (i, monthNames ! i)) [0..<12] ! i"
    by (simp add: len nth_enumerate_eq)
qed

lemma active_entries:
  fixes mts :: "month_total list"
  assumes pos: "\<And>m. m \<in> set mts \<Longrightarrow> 0 < mt_count m"
    and srt: "sorted (map mt_month mts)"
    and dst: "distinct (map mt_month mts)"
    and rng: "\<And>m. m \<in> set mts \<Longrightarrow> 1 \<le> mt_month m \<and> mt_month m \<le> 12"
  shows "map mi_totalAmount
           (filter (\<lambda>b. 0 < mi_count b) (map (fill_month mts) (enumerate 0 monthNames)))
         = map mt_totalAmount mts"
proof -
  define g where "g i = find (\<lambda>m. mt_month m = int i + 1) mts" for i :: nat
  define I where "I = filter (\<lambda>i. g i \<noteq> None) [0..<12]"
  define L where "L = map (\<lambda>i. the (g i)) I"
  have gI: "\<And>i. i \<in> set I \<Longrightarrow> \<exists>m. g i = Some m \<and> m \<in> set mts \<and> mt_month m = int i + 1"
    by (auto simp: I_def g_def find_Some_iff)
  have act: "0 < mi_count (fill_month mts (i, n)) \<longleftrightarrow> g i \<noteq> None" for i n
    using fill_month_count [of mts i n] pos by (auto simp: g_def find_None_iff)
  have A: "filter (\<lambda>b. 0 < mi_count b) (map (fill_month mts) (enumerate 0 monthNames))
             = map (\<lambda>i. fill_month mts (i, monthNames ! i)) I"
    unfolding breakdown_indices I_def filter_map by (simp add: comp_def act)
  have tot: "mi_totalAmount (fill_month mts (i, monthNames ! i)) = mt_totalAmount (the (g i))"
    if "i \<in> set I" for i
    using gI [OF that] by (auto simp: fill_month_def Let_def g_def)
  have AL: "map mi_totalAmount
              (filter (\<lambda>b. 0 < mi_count b) (map (fill_month mts) (enumerate 0 monthNames)))
            = map mt_totalAmount L"
    unfolding A L_def by (simp add: comp_def tot cong: map_cong)
  have mth: "mt_month (the (g i)) = int i + 1" if "i \<in> set I" for i
    using gI [OF that] by force
  have mL: "map mt_month L = map (\<lambda>i. int i + 1) I"
    unfolding L_def by (simp add: comp_def mth)
  have "sorted_wrt (\<lambda>x y. int x + 1 \<le> int y + 1) [0..<12]"
    by (rule sorted_wrt_mono_rel [OF _ sorted_upt]) simp
  then have "sorted (map (\<lambda>i. int i + 1) [0..<12])" by (simp only: sorted_map)
  then have s1: "sorted (map (\<lambda>i. int i + 1) I)" unfolding I_def by (rule sorted_filter)
  have "distinct (map (\<lambda>i. int i + 1) [0..<12])" by (simp add: distinct_map inj_on_def)
  then have "distinct (map (\<lambda>i. int i + 1) I)" unfolding I_def by (rule distinct_map_filter)
  with s1 have sL: "sorted (map mt_month L)" and dL: "distinct (map mt_month L)"
    by (simp_all only: mL)
  have setL: "set (map mt_month L) = set (map mt_month mts)"
  proof (intro equalityI subsetI)
    fix k assume "k \<in> set (map mt_month L)"
    then obtain i where "i \<in> set I" "k = int i + 1" unfolding mL by auto
    with gI [of i] show "k \<in> set (map mt_month mts)" by force
  next
    fix k assume "k \<in> set (map mt_month mts)"
    then obtain m where m: "m \<in> set mts" "k = mt_month m" by auto
    with rng [of m] have k: "1 \<le> k" "k \<le> 12" by simp_all
    define i where "i = nat (k - 1)"
    from k have i: "i < 12" "int i + 1 = k" by (simp_all add: i_def)
    from m i have "g i \<noteq> None" by (auto simp: g_def find_None_iff)
    with i have "i \<in> set I" by (simp add: I_def)
    with i show "k \<in> set (map mt_month L)" unfolding mL by force
  qed
  from sL dL srt dst setL have mm: "map mt_month L = map mt_month mts"
    by (rule sorted_distinct_set_unique)
  have "set L \<subseteq> set mts" unfolding L_def using gI by force
  moreover from dst have "inj_on mt_month (set mts)" by (simp add: distinct_map)
  ultimately have "inj_on mt_month (set L \<union> set mts)"
    by (simp add: Un_absorb1)
  with mm have "L = mts" by (simp only: inj_on_map_eq_map)
  with AL show ?thesis by simp
qed

lemma monthly_active_totals:
  "map mi_totalAmount
     (filter (\<lambda>b. 0 < mi_count b) (mr_monthlyBreakdown (getMonthlyReport z clk db uid yp)))
   = map mt_totalAmount (monthlyTotals z db uid (or_default yp (getFullYear z (clk 0))))"
  unfolding breakdown_eq
proof (rule active_entries)
  let ?mts = "monthlyTotals z db uid (or_default yp (getFullYear z (clk 0)))"
  show "\<And>m. m \<in> set ?mts \<Longrightarrow> 0 < mt_count m" by (rule monthlyTotals_count)
  show "sorted (map mt_month ?mts)" by (rule monthlyTotals_sorted)
  show "distinct (map mt_month ?mts)" by (rule monthlyTotals_distinct)
  fix m assume "m \<in> set ?mts"
  then have "mt_month m \<in> set (map mt_month ?mts)" by simp
  then show "1 \<le> mt_month m \<and> mt_month m \<le> 12"
    unfolding monthlyTotals_months using utc_month_range by auto
qed

lemma monthly_summary_fields:
  "mr_yearlyTotal (getMonthlyReport z clk db uid yp)
     = round2 (foldl fadd 0 (map mt_totalAmount
         (monthlyTotals z db uid (or_default yp (getFullYear z (clk 0))))))"
  "mr_monthlyAverage (getMonthlyReport z clk db uid yp)
     = round2 (fdiv (foldl fadd 0 (map mt_totalAmount
         (monthlyTotals z db uid (or_default yp (getFullYear z (clk 0)))))) 12)"
  by (simp_all add: getMonthlyReport_def monthly_assemble_def Let_def foldl_map)

text \<open>
  Claim C6, as amended.  Let \<open>T\<close> be the sum, added up in double arithmetic in the order of
  the months, of the totals of the breakdown entries that have records.  The summary emits
  \<^verbatim>\<open>Math.round(T * 100) / 100\<close> as \<open>yearlyTotal\<close> and \<^verbatim>\<open>Math.round((T / 12) * 100) / 100\<close>
  as \<open>monthlyAverage\<close>: the divisor is the constant 12, however many months have records,
  and both roundings are those of double arithmetic.  \<open>activeMonths\<close> is the number of
  entries of the breakdown whose count is positive.
\<close>

theorem monthly_summary_figures:
  "mr_yearlyTotal (getMonthlyReport z clk db uid yp)
     = round2 (foldl fadd 0 (map mi_totalAmount
         (filter (\<lambda>b. 0 < mi_count b) (mr_monthlyBreakdown (getMonthlyReport z clk db uid yp)))))
   \<and> mr_monthlyAverage (getMonthlyReport z clk db uid yp)
     = round2 (fdiv (foldl fadd 0 (map mi_totalAmount
         (filter (\<lambda>b. 0 < mi_count b) (mr_monthlyBreakdown (getMonthlyReport z clk db uid yp)))))
         12)
   \<and> mr_activeMonths (getMonthlyReport z clk db uid yp)
     = length (filter (\<lambda>b. 0 < mi_count b)
                 (mr_monthlyBreakdown (getMonthlyReport z clk db uid yp)))"
proof (intro conjI)
  let ?mts = "monthlyTotals z db uid (or_default yp (getFullYear z (clk 0)))"
  show "mr_yearlyTotal (getMonthlyReport z clk db uid yp)
     = round2 (foldl fadd 0 (map mi_totalAmount
         (filter (\<lambda>b. 0 < mi_count b) (mr_monthlyBreakdown (getMonthlyReport z clk db uid yp)))))"
    unfolding monthly_active_totals
    by (simp add: getMonthlyReport_def monthly_assemble_def Let_def foldl_map)
  show "mr_monthlyAverage (getMonthlyReport z clk db uid yp)
     = round2 (fdiv (foldl fadd 0 (map mi_totalAmount
         (filter (\<lambda>b. 0 < mi_count b) (mr_monthlyBreakdown (getMonthlyReport z clk db uid yp)))))
         12)"
    unfolding monthly_active_totals
    by (simp add: getMonthlyReport_def monthly_assemble_def Let_def foldl_map)
  have "length (filter (\<lambda>b. 0 < mi_count b)
                 (mr_monthlyBreakdown (getMonthlyReport z clk db uid yp)))
          = length (map mi_totalAmount (filter (\<lambda>b. 0 < mi_count b)
                 (mr_monthlyBreakdown (getMonthlyReport z clk db uid yp))))"
    by simp
  also have "\<dots> = length ?mts" unfolding monthly_active_totals by simp
  finally show "mr_activeMonths (getMonthlyReport z clk db uid yp)
     = length (filter (\<lambda>b. 0 < mi_count b)
                 (mr_monthlyBreakdown (getMonthlyReport z clk db uid yp)))"
    by (simp add: getMonthlyReport_def monthly_assemble_def Let_def)
qed

text \<open>
  Claim C6 as stated fails in its first part, where it takes \<open>monthlyAverage\<close> to be the
  emitted \<open>yearlyTotal\<close> divided by 12 and rounded half up.  With a single record of 0.42
  in the year the report shows the yearly total 0.42 and the monthly average 0.03, and 0.42
  divided by 12 is 0.035, which rounds half up to 0.04: in double arithmetic
  \<^verbatim>\<open>(0.42 / 12) * 100\<close> is a little less than 3.5.
\<close>

theorem monthly_average_counterexample:
  "mr_yearlyTotal (getMonthlyReport utc_zone (at_time 1735732800000)
       [sample_expense 1 7 (rd (42 / 100)) 1720008000000 FOOD] 7 (Some 2024)) = rd (42 / 100)
   \<and> mr_monthlyAverage (getMonthlyReport utc_zone (at_time 1735732800000)
       [sample_expense 1 7 (rd (42 / 100)) 1720008000000 FOOD] 7 (Some 2024)) = rd (3 / 100)
   \<and> spec_round2 (42 / 100 / 12) = 4 / 100
   \<and> rd (3 / 100) \<noteq> rd (4 / 100)"
proof -
  have y: "or_default (Some 2024) (getFullYear utc_zone (at_time 1735732800000 0)) = 2024"
    by (simp add: or_default_def)
  have m: "map mt_totalAmount (monthlyTotals utc_zone
             [sample_expense 1 7 (rd (42 / 100)) 1720008000000 FOOD] 7 2024) = [rd (42 / 100)]"
    by code_simp
  have a: "round2 (foldl fadd 0 [rd (42 / 100)]) = rd (42 / 100)" by code_simp
  have b: "round2 (fdiv (foldl fadd 0 [rd (42 / 100)]) 12) = rd (3 / 100)" by code_simp
  have c: "spec_round2 (42 / 100 / 12) = 4 / 100" by code_simp
  have d: "rd (3 / 100) \<noteq> rd (4 / 100)" by code_simp
  show ?thesis
    unfolding monthly_summary_fields y m a b using c d by (intro conjI refl)
qed

section \<open>Trend summary\<close>

lemma day_key_eq: "day_key x = civil_from_days (date x div ms_per_day)"
  by (simp add: day_key_def utc_year_def utc_month_def utc_dayOfMonth_def)

lemma length_dailyTrends:
  "length (dailyTrends db uid t) = card (day_key ` set (trend_match db uid t))"
  by (simp add: dailyTrends_def length_group_by)

lemma minus_days_fixed_zone: "minus_days (fixed_zone off) t days = t - days * ms_per_day"
  by (simp add: minus_days_def fixed_zone_def)

lemma minus_days_fixed_zone_div:
  "minus_days (fixed_zone off) t days div ms_per_day = t div ms_per_day - days"
proof -
  have "(t + (- days) * ms_per_day) div ms_per_day = - days + t div ms_per_day"
    by (rule div_mult_self1) (simp add: ms_per_day_def)
  then show ?thesis by (simp add: minus_days_fixed_zone)
qed

lemma active_days_bound:
  assumes "\<And>x. x \<in> set (trend_match db uid s) \<Longrightarrow> date x \<le> e"
  shows "int (length (dailyTrends db uid s)) \<le> max 0 (e div ms_per_day - s div ms_per_day + 1)"
proof -
  let ?m = "trend_match db uid s"
  let ?D = "(\<lambda>x. date x div ms_per_day) ` set ?m"
  let ?lo = "s div ms_per_day"
  let ?hi = "e div ms_per_day"
  have pos: "0 < ms_per_day" by (simp add: ms_per_day_def)
  have sub: "?D \<subseteq> {?lo .. ?hi}"
  proof
    fix d assume "d \<in> ?D"
    then obtain x where x: "x \<in> set ?m" and d: "d = date x div ms_per_day" by blast
    from x have "s \<le> date x" by (simp add: trend_match_def)
    then have "?lo \<le> d"
      unfolding d using pos by (simp add: zdiv_mono1)
    moreover from assms [OF x] have "d \<le> ?hi"
      unfolding d using pos by (simp add: zdiv_mono1)
    ultimately show "d \<in> {?lo .. ?hi}" by simp
  qed
  have "day_key ` set ?m = civil_from_days ` ?D"
    by (simp add: image_image day_key_eq)
  then have "card (day_key ` set ?m) \<le> card ?D"
    by (simp add: card_image_le)
  also have "\<dots> \<le> card {?lo .. ?hi}"
    by (rule card_mono [OF finite_atLeastAtMost_int sub])
  also have "\<dots> = nat (?hi - ?lo + 1)" by simp
  finally have "length (dailyTrends db uid s) \<le> nat (?hi - ?lo + 1)"
    by (simp only: length_dailyTrends)
  then show ?thesis by linarith
qed

lemma trend_fields:
  "tr_days (getExpenseTrends z clk db uid dp) = or_default dp 30"
  "tr_startDate (getExpenseTrends z clk db uid dp) = minus_days z (clk 0) (or_default dp 30)"
  "tr_endDate (getExpenseTrends z clk db uid dp) = clk 1"
  "tr_activeDays (getExpenseTrends z clk db uid dp)
     = length (dailyTrends db uid (minus_days z (clk 0) (or_default dp 30)))"
  "tr_dailyTrends (getExpenseTrends z clk db uid dp)
     = dailyTrends db uid (minus_days z (clk 0) (or_default dp 30))"
  by (simp_all add: getExpenseTrends_def trend_assemble_def Let_def)

lemma trend_periodTotal:
  "tr_periodTotal (getExpenseTrends z clk db uid dp)
     = round2 (foldl fadd 0 (map dt_totalAmount
         (dailyTrends db uid (minus_days z (clk 0) (or_default dp 30)))))"
  by (simp add: getExpenseTrends_def trend_assemble_def Let_def foldl_map)

lemma trend_dailyAverage:
  "tr_dailyAverage (getExpenseTrends z clk db uid dp)
     = (if length (dailyTrends db uid (minus_days z (clk 0) (or_default dp 30))) = 0 then 0
        else round2 (fdiv (foldl fadd 0 (map dt_totalAmount
                       (dailyTrends db uid (minus_days z (clk 0) (or_default dp 30)))))
               (of_nat (length (dailyTrends db uid (minus_days z (clk 0) (or_default dp 30)))))))"
  by (simp add: getExpenseTrends_def trend_assemble_def Let_def foldl_map round2_0)

text \<open>
  Claim C7, as amended.  \<open>activeDays\<close> is the length of \<open>dailyTrends\<close>.  Let \<open>T\<close> be the sum
  of the day totals of \<open>dailyTrends\<close>, added up in double arithmetic in the order of the list:
  \<open>periodTotal\<close> is \<^verbatim>\<open>Math.round(T * 100) / 100\<close>, and \<open>dailyAverage\<close> is 0 when \<open>activeDays\<close>
  is 0 and otherwise \<^verbatim>\<open>Math.round((T / activeDays) * 100) / 100\<close>, both in double arithmetic.
  When no record of the user is dated after the \<open>endDate\<close> of the response, \<open>activeDays\<close> is
  at most the number of UTC calendar days from the day of \<open>startDate\<close> to the day of
  \<open>endDate\<close>; on a server whose local time is UTC plus a constant, and with \<open>endDate\<close>
  read at the same instant as the start of the request, that number is \<open>days + 1\<close> (0 for
  a negative \<open>days\<close>), since the window starts \<open>days\<close> times 24 hours before the request and
  not at a midnight.
\<close>

theorem trend_summary_figures:
  "tr_activeDays (getExpenseTrends z clk db uid dp)
           = length (tr_dailyTrends (getExpenseTrends z clk db uid dp))
   \<and> tr_periodTotal (getExpenseTrends z clk db uid dp)
           = round2 (foldl fadd 0
               (map dt_totalAmount (tr_dailyTrends (getExpenseTrends z clk db uid dp))))
   \<and> tr_dailyAverage (getExpenseTrends z clk db uid dp)
           = (if tr_activeDays (getExpenseTrends z clk db uid dp) = 0 then 0
              else round2 (fdiv
                     (foldl fadd 0
                        (map dt_totalAmount (tr_dailyTrends (getExpenseTrends z clk db uid dp))))
                     (of_nat (tr_activeDays (getExpenseTrends z clk db uid dp)))))
   \<and> ((\<forall>x \<in> set db. userId x = uid
            \<longrightarrow> date x \<le> tr_endDate (getExpenseTrends z clk db uid dp))
        \<longrightarrow> int (tr_activeDays (getExpenseTrends z clk db uid dp))
              \<le> max 0 (tr_endDate (getExpenseTrends z clk db uid dp) div ms_per_day
                         - tr_startDate (getExpenseTrends z clk db uid dp) div ms_per_day + 1))
   \<and> ((\<forall>x \<in> set db. userId x = uid
            \<longrightarrow> date x \<le> tr_endDate (getExpenseTrends z clk db uid dp))
        \<and> z = fixed_zone off \<and> clk 1 = clk 0
        \<longrightarrow> int (tr_activeDays (getExpenseTrends z clk db uid dp))
              \<le> max 0 (tr_days (getExpenseTrends z clk db uid dp) + 1))"
proof -
  let ?s = "minus_days z (clk 0) (or_default dp 30)"
  have b: "int (length (dailyTrends db uid ?s))
             \<le> max 0 (clk 1 div ms_per_day - ?s div ms_per_day + 1)"
    if "\<forall>x \<in> set db. userId x = uid \<longrightarrow> date x \<le> clk 1"
  proof (rule active_days_bound)
    fix x assume "x \<in> set (trend_match db uid ?s)"
    with that show "date x \<le> clk 1" by (simp add: trend_match_def)
  qed
  have g: "(\<forall>x \<in> set db. userId x = uid \<longrightarrow> date x \<le> clk 1)
             \<longrightarrow> int (length (dailyTrends db uid ?s))
                   \<le> max 0 (clk 1 div ms_per_day - ?s div ms_per_day + 1)"
    using b by (rule impI)
  have f: "(\<forall>x \<in> set db. userId x = uid \<longrightarrow> date x \<le> clk 1)
             \<and> z = fixed_zone off \<and> clk 1 = clk 0
             \<longrightarrow> int (length (dailyTrends db uid ?s)) \<le> max 0 (or_default dp 30 + 1)"
  proof
    assume h: "(\<forall>x \<in> set db. userId x = uid \<longrightarrow> date x \<le> clk 1)
                 \<and> z = fixed_zone off \<and> clk 1 = clk 0"
    then have e: "clk 1 div ms_per_day - ?s div ms_per_day + 1 = or_default dp 30 + 1"
      by (simp add: minus_days_fixed_zone_div)
    from h have "int (length (dailyTrends db uid ?s))
                   \<le> max 0 (clk 1 div ms_per_day - ?s div ms_per_day + 1)"
      by (intro b) (rule conjunct1)
    then show "int (length (dailyTrends db uid ?s)) \<le> max 0 (or_default dp 30 + 1)"
      by (simp only: e)
  qed
  show ?thesis
    unfolding trend_fields trend_periodTotal trend_dailyAverage
    using g f by (intro conjI refl)
qed

theorem trend_summary_figures_witness:
  "tr_activeDays (getExpenseTrends utc_zone (at_time 1735732800000)
       [sample_expense 1 7 1 1735650000000 FOOD,
        sample_expense 2 7 (rd (101 / 100)) 1735725600000 TRAVEL] 7 (Some 1))
     = length (tr_dailyTrends (getExpenseTrends utc_zone (at_time 1735732800000)
       [sample_expense 1 7 1 1735650000000 FOOD,
        sample_expense 2 7 (rd (101 / 100)) 1735725600000 TRAVEL] 7 (Some 1)))
   \<and> int (tr_activeDays (getExpenseTrends utc_zone (at_time 1735732800000)
       [sample_expense 1 7 1 1735650000000 FOOD,
        sample_expense 2 7 (rd (101 / 100)) 1735725600000 TRAVEL] 7 (Some 1)))
     \<le> max 0 (tr_endDate (getExpenseTrends utc_zone (at_time 1735732800000)
       [sample_expense 1 7 1 1735650000000 FOOD,
        sample_expense 2 7 (rd (101 / 100)) 1735725600000 TRAVEL] 7 (Some 1)) div ms_per_day
       - tr_startDate (getExpenseTrends utc_zone (at_time 1735732800000)
       [sample_expense 1 7 1 1735650000000 FOOD,
        sample_expense 2 7 (rd (101 / 100)) 1735725600000 TRAVEL] 7 (Some 1)) div ms_per_day
       + 1)
   \<and> int (tr_activeDays (getExpenseTrends utc_zone (at_time 1735732800000)
       [sample_expense 1 7 1 1735650000000 FOOD,
        sample_expense 2 7 (rd (101 / 100)) 1735725600000 TRAVEL] 7 (Some 1)))
     \<le> max 0 (tr_days (getExpenseTrends utc_zone (at_time 1735732800000)
       [sample_expense 1 7 1 1735650000000 FOOD,
        sample_expense 2 7 (rd (101 / 100)) 1735725600000 TRAVEL] 7 (Some 1)) + 1)"
proof -
  have h: "\<forall>x \<in> set [sample_expense 1 7 1 1735650000000 FOOD,
                       sample_expense 2 7 (rd (101 / 100)) 1735725600000 TRAVEL].
             userId x = 7 \<longrightarrow> date x \<le> tr_endDate (getExpenseTrends utc_zone
               (at_time 1735732800000)
               [sample_expense 1 7 1 1735650000000 FOOD,
                sample_expense 2 7 (rd (101 / 100)) 1735725600000 TRAVEL] 7 (Some 1))"
    unfolding trend_fields by (simp add: sample_expense_def at_time_def)
  have k: "utc_zone = fixed_zone 0 \<and> at_time 1735732800000 1 = at_time 1735732800000 0"
    by (simp add: utc_zone_def at_time_def)
  note t = trend_summary_figures
    [where clk = "at_time 1735732800000" and z = utc_zone and dp = "Some 1" and off = 0
       and uid = 7 and db = "[sample_expense 1 7 1 1735650000000 FOOD,
                sample_expense 2 7 (rd (101 / 100)) 1735725600000 TRAVEL]"]
  note t4 = t [THEN conjunct2, THEN conjunct2, THEN conjunct2]
  show ?thesis
    by (rule conjI [OF t [THEN conjunct1]
          conjI [OF t4 [THEN conjunct1, THEN mp, OF h]
            t4 [THEN conjunct2, THEN mp, OF conjI [OF h k]]]])
qed

text \<open>
  Claim C7 as stated fails in two of its parts.  At noon of 1 January 2025 on a server in
  UTC, with \<open>days = 1\<close>, one record of 1.00 at 13:00 on 31 December and one of 1.01 at 10:00
  on 1 January lie in the last 24 hours and fall on two calendar days: \<open>activeDays\<close> is 2,
  more than \<open>days\<close>.  The report shows the period total 2.01 and the daily average 1, and
  2.01 divided by 2 is 1.005, which rounds half up to 1.01: in double arithmetic
  \<^verbatim>\<open>(2.01 / 2) * 100\<close> is a little less than 100.5.
\<close>

theorem trend_active_days_counterexample:
  "tr_days (getExpenseTrends utc_zone (at_time 1735732800000)
       [sample_expense 1 7 1 1735650000000 FOOD,
        sample_expense 2 7 (rd (101 / 100)) 1735725600000 TRAVEL] 7 (Some 1)) = 1
   \<and> tr_activeDays (getExpenseTrends utc_zone (at_time 1735732800000)
       [sample_expense 1 7 1 1735650000000 FOOD,
        sample_expense 2 7 (rd (101 / 100)) 1735725600000 TRAVEL] 7 (Some 1)) = 2
   \<and> tr_periodTotal (getExpenseTrends utc_zone (at_time 1735732800000)
       [sample_expense 1 7 1 1735650000000 FOOD,
        sample_expense 2 7 (rd (101 / 100)) 1735725600000 TRAVEL] 7 (Some 1)) = rd (201 / 100)
   \<and> tr_dailyAverage (getExpenseTrends utc_zone (at_time 1735732800000)
       [sample_expense 1 7 1 1735650000000 FOOD,
        sample_expense 2 7 (rd (101 / 100)) 1735725600000 TRAVEL] 7 (Some 1)) = 1
   \<and> spec_round2 (201 / 100 / 2) = 101 / 100
   \<and> rd (101 / 100) \<noteq> 1"
proof -
  have s: "minus_days utc_zone (at_time 1735732800000 0) (or_default (Some 1) 30)
             = 1735646400000"
    by (simp add: utc_zone_def minus_days_fixed_zone at_time_def or_default_def ms_per_day_def)
  have m: "map dt_totalAmount (dailyTrends
             [sample_expense 1 7 1 1735650000000 FOOD,
              sample_expense 2 7 (rd (101 / 100)) 1735725600000 TRAVEL] 7 1735646400000)
           = [1, rd (101 / 100)]"
    by code_simp
  have l: "length (dailyTrends
             [sample_expense 1 7 1 1735650000000 FOOD,
              sample_expense 2 7 (rd (101 / 100)) 1735725600000 TRAVEL] 7 1735646400000) = 2"
    using arg_cong [OF m, of length] by simp
  have a: "round2 (foldl fadd 0 [1, rd (101 / 100)]) = rd (201 / 100)" by code_simp
  have b: "round2 (fdiv (foldl fadd 0 [1, rd (101 / 100)]) (of_nat 2)) = 1" by code_simp
  have c: "spec_round2 (201 / 100 / 2) = 101 / 100" by code_simp
  have d: "rd (101 / 100) \<noteq> 1" by code_simp
  have e: "or_default (Some 1) 30 = 1" by (simp add: or_default_def)
  show ?thesis
    unfolding trend_fields trend_periodTotal trend_dailyAverage s m l a
    using b c d e by simp
qed

text \<open>
  The window follows the local calendar of the server.  On a server with daylight-saving
  time, a request at 2024-11-04T00:20Z (19:20 local time on 3 November, the day on which
  the clocks went back) with \<open>days = 1\<close> has its window start at 19:20 local time on
  2 November, which is 2024-11-02T23:20Z, 25 hours earlier.  Three records dated in that
  window on 2, 3 and 4 November (UTC) give \<open>activeDays = 3\<close>: the bound \<open>days + 1\<close> holds on
  a server at a constant offset from UTC only, and the bound by the calendar days from
  \<open>startDate\<close> to \<open>endDate\<close> holds here too.
\<close>

lemma trend_window_across_dst:
  "tr_days (getExpenseTrends sample_dst_zone (at_time 1730679600000)
       [sample_expense 1 7 10 1730590200000 FOOD, sample_expense 2 7 20 1730635200000 FOOD,
        sample_expense 3 7 30 1730679000000 FOOD] 7 (Some 1)) = 1
   \<and> tr_startDate (getExpenseTrends sample_dst_zone (at_time 1730679600000)
       [sample_expense 1 7 10 1730590200000 FOOD, sample_expense 2 7 20 1730635200000 FOOD,
        sample_expense 3 7 30 1730679000000 FOOD] 7 (Some 1)) = 1730589600000
   \<and> tr_endDate (getExpenseTrends sample_dst_zone (at_time 1730679600000)
       [sample_expense 1 7 10 1730590200000 FOOD, sample_expense 2 7 20 1730635200000 FOOD,
        sample_expense 3 7 30 1730679000000 FOOD] 7 (Some 1)) = 1730679600000
   \<and> tr_activeDays (getExpenseTrends sample_dst_zone (at_time 1730679600000)
       [sample_expense 1 7 10 1730590200000 FOOD, sample_expense 2 7 20 1730635200000 FOOD,
        sample_expense 3 7 30 1730679000000 FOOD] 7 (Some 1)) = 3"
proof -
  let ?db = "[sample_expense 1 7 10 1730590200000 FOOD, sample_expense 2 7 20 1730635200000 FOOD,
        sample_expense 3 7 30 1730679000000 FOOD]"
  have d: "or_default (Some 1) 30 = 1" by (simp add: or_default_def)
  have s: "minus_days sample_dst_zone (at_time 1730679600000 0) 1 = 1730589600000"
    by (simp add: minus_days_def sample_dst_zone_def at_time_def ms_per_day_def)
  have e: "at_time 1730679600000 1 = 1730679600000" by (simp add: at_time_def)
  have "remdups (map day_key (trend_match ?db 7 1730589600000))
          = [(2024, 11, 2), (2024, 11, 3), (2024, 11, 4)]"
    by code_simp
  then have a: "length (dailyTrends ?db 7 1730589600000) = 3"
    by (simp add: dailyTrends_def group_by_def)
  show ?thesis unfolding trend_fields d s e a by simp
qed

section \<open>Percentages of the category breakdown\<close>

lemma percentage_close:
  assumes "0 < t" "0 < G" "t \<le> 2 * G"
  shows "\<bar>percentage t G - t / G * 100\<bar> \<le> 1 / 200 + 1002 * unit_roundoff"
proof -
  define u where "u = unit_roundoff"
  define r where "r = t / G"
  define q where "q = rd r"
  define a where "a = rd (q * 100)"
  define z where "z = rd (a * 100)"
  define M :: rat where "M = of_int (Math_round z)"
  define p where "p = rd (M / 100)"
  have u: "0 < u" "u \<le> 1 / 1000000" by (simp_all add: u_def unit_roundoff_def)
  have r: "0 < r" "r \<le> 2" using assms by (simp_all add: r_def field_simps)
  have "\<bar>q - r\<bar> \<le> \<bar>r\<bar> * u" unfolding q_def u_def by (rule rd_abs)
  moreover have "\<bar>r\<bar> * u \<le> 2 * u" using r u by (intro mult_right_mono) simp_all
  ultimately have q: "\<bar>q - r\<bar> \<le> 2 * u" by simp
  have q0: "0 \<le> q" unfolding q_def using r by (intro rd_nonneg) simp
  from q r u have q3: "q \<le> 3" by linarith
  have "\<bar>a - q * 100\<bar> \<le> \<bar>q * 100\<bar> * u" unfolding a_def u_def by (rule rd_abs)
  moreover have "\<bar>q * 100\<bar> * u \<le> 300 * u" using q0 q3 u by (intro mult_right_mono) simp_all
  ultimately have a: "\<bar>a - q * 100\<bar> \<le> 300 * u" by simp
  have a0: "0 \<le> a" unfolding a_def using q0 by (intro rd_nonneg) simp
  from a q r u have a3: "a \<le> 301" by linarith
  have "\<bar>z - a * 100\<bar> \<le> \<bar>a * 100\<bar> * u" unfolding z_def u_def by (rule rd_abs)
  moreover have "\<bar>a * 100\<bar> * u \<le> 30100 * u" using a0 a3 u by (intro mult_right_mono) simp_all
  ultimately have z: "\<bar>z - a * 100\<bar> \<le> 30100 * u" by simp
  have M: "\<bar>M - z\<bar> \<le> 1 / 2" unfolding M_def by (rule Math_round_close)
  from q a z M r u have Mr: "\<bar>M - r * 10000\<bar> \<le> 1 / 2 + 80100 * u" by linarith
  with r u have M3: "\<bar>M / 100\<bar> \<le> 201" by simp
  have "\<bar>p - M / 100\<bar> \<le> \<bar>M / 100\<bar> * u" unfolding p_def u_def by (rule rd_abs)
  moreover have "\<bar>M / 100\<bar> * u \<le> 201 * u" using M3 u by (intro mult_right_mono) simp_all
  ultimately have p: "\<bar>p - M / 100\<bar> \<le> 201 * u" by simp
  from p Mr have "\<bar>p - r * 100\<bar> \<le> 1 / 200 + 1002 * u" by linarith
  moreover have "percentage t G = p"
    using assms(2) by (simp add: percentage_def fdiv_def fmul_def p_def M_def z_def a_def q_def r_def)
  ultimately show ?thesis by (simp add: r_def u_def)
qed

lemma sum_list_abs_diff:
  fixes f g :: "'a \<Rightarrow> rat"
  assumes "\<And>x. x \<in> set xs \<Longrightarrow> \<bar>f x - g x\<bar> \<le> d"
  shows "\<bar>sum_list (map f xs) - sum_list (map g xs)\<bar> \<le> of_nat (length xs) * d"
  using assms
proof (induction xs)
  case Nil
  then show ?case by simp
next
  case (Cons a xs)
  have "\<bar>f a - g a\<bar> \<le> d" by (rule Cons.prems) simp
  moreover have "\<bar>sum_list (map f xs) - sum_list (map g xs)\<bar> \<le> of_nat (length xs) * d"
    by (rule Cons.IH) (simp add: Cons.prems)
  ultimately show ?case by (simp add: algebra_simps)
qed

lemma sum_list_scaled:
  fixes f :: "'a \<Rightarrow> rat"
  shows "sum_list (map (\<lambda>c. f c / G * 100) xs) = sum_list (map f xs) / G * 100"
  by (induction xs) (simp_all add: add_divide_distrib distrib_right)

lemma member_le_sum_list_rat:
  fixes ts :: "rat list"
  assumes "\<forall>t \<in> set ts. 0 \<le> t" and "x \<in> set ts"
  shows "x \<le> sum_list ts"
  using assms
proof (induction ts)
  case Nil
  then show ?case by simp
next
  case (Cons t ts)
  have t: "0 \<le> t" using Cons.prems by simp
  have s: "0 \<le> sum_list ts" by (rule sum_list_nonneg) (use Cons.prems in simp)
  show ?case
  proof (cases "x = t")
    case True
    with s show ?thesis by simp
  next
    case False
    with Cons.prems have "x \<in> set ts" by simp
    with Cons.IH Cons.prems have "x \<le> sum_list ts" by simp
    with t show ?thesis by simp
  qed
qed

lemma percentages_sum_close:
  fixes cts :: "category_total list"
  assumes ne: "cts \<noteq> []" and len: "length cts \<le> 9"
    and pos: "\<And>c. c \<in> set cts \<Longrightarrow> 0 < ct_totalAmount c"
  defines "G \<equiv> foldl fadd 0 (map ct_totalAmount cts)"
  shows "\<bar>sum_list (map (\<lambda>c. percentage (ct_totalAmount c) G) cts) - 100\<bar>
           \<le> of_nat (length cts) / 200 + 1 / 10 ^ 11"
proof -
  define u where "u = unit_roundoff"
  define ts where "ts = map ct_totalAmount cts"
  define S where "S = sum_list ts"
  define n where "n = length cts"
  have u: "0 < u" "u \<le> 1 / 1000000" by (simp_all add: u_def unit_roundoff_def)
  have tpos: "\<And>t. t \<in> set ts \<Longrightarrow> 0 < t" using pos by (auto simp: ts_def)
  then have tnn: "\<And>t. t \<in> set ts \<Longrightarrow> 0 \<le> t" by (simp add: less_imp_le)
  then have ann: "\<forall>t \<in> set ts. 0 \<le> t" by blast
  from ne obtain c0 where c0: "c0 \<in> set cts" by (cases cts) auto
  have "ct_totalAmount c0 \<in> set ts" using c0 by (simp add: ts_def)
  then have "0 < ct_totalAmount c0" "ct_totalAmount c0 \<le> S"
    unfolding S_def using tpos member_le_sum_list_rat [OF ann] by blast+
  then have S: "0 < S" by simp
  have Su: "0 \<le> S * u" "S * u \<le> S / 1000000"
    using S u by (simp_all add: field_simps)
  have lt: "length ts \<le> 9" using len by (simp add: ts_def)
  have fb: "(0 + sum_list ts) * (1 - unit_roundoff) ^ length ts \<le> foldl fadd 0 ts
       \<and> foldl fadd 0 ts \<le> (0 + sum_list ts) * (1 + unit_roundoff) ^ length ts"
    by (rule foldl_fadd_bounds) (simp_all add: tnn)
  have "S * (1 - 9 * u) \<le> S * (1 - u) ^ length ts"
    unfolding u_def using S pow_bounds(1) [OF lt] by (intro mult_left_mono) simp_all
  with fb have lo: "S * (1 - 9 * u) \<le> G" by (simp add: G_def ts_def S_def u_def)
  have "S * (1 + u) ^ length ts \<le> S * (1 + 10 * u)"
    unfolding u_def using S pow_bounds(2) [OF lt] by (intro mult_left_mono) simp_all
  with fb have hi: "G \<le> S * (1 + 10 * u)" by (simp add: G_def ts_def S_def u_def)
  from lo have lo': "S - 9 * (S * u) \<le> G" by (simp add: algebra_simps)
  from hi have hi': "G \<le> S + 10 * (S * u)" by (simp add: algebra_simps)
  from lo' hi' Su S have G: "0 < G" "S \<le> 2 * G" "\<bar>S - G\<bar> \<le> 10 * (S * u)"
    by linarith+
  have Gu: "S * u \<le> 2 * (G * u)" using G(2) u by (simp add: field_simps)
  have each: "\<bar>percentage (ct_totalAmount c) G - ct_totalAmount c / G * 100\<bar>
                \<le> 1 / 200 + 1002 * unit_roundoff" if "c \<in> set cts" for c
  proof (rule percentage_close)
    show "0 < ct_totalAmount c" using that by (rule pos)
    show "0 < G" by (rule G)
    have "ct_totalAmount c \<in> set ts" using that by (simp add: ts_def)
    then have "ct_totalAmount c \<le> S" unfolding S_def by (rule member_le_sum_list_rat [OF ann])
    with G(2) show "ct_totalAmount c \<le> 2 * G" by simp
  qed
  have d1: "\<bar>sum_list (map (\<lambda>c. percentage (ct_totalAmount c) G) cts)
            - sum_list (map (\<lambda>c. ct_totalAmount c / G * 100) cts)\<bar>
          \<le> of_nat (length cts) * (1 / 200 + 1002 * unit_roundoff)"
    by (rule sum_list_abs_diff) (rule each)
  have sc: "sum_list (map (\<lambda>c. ct_totalAmount c / G * 100) cts) = S / G * 100"
    unfolding sum_list_scaled by (simp add: S_def ts_def comp_def)
  have "\<bar>S / G - 1\<bar> = \<bar>S - G\<bar> / G"
    using G(1) by (simp add: field_simps abs_if)
  also have "\<dots> \<le> 20 * (G * u) / G"
    using G Gu by (intro divide_right_mono) simp_all
  also have "\<dots> = 20 * u" using G(1) by simp
  finally have "\<bar>S / G - 1\<bar> \<le> 20 * u" .
  moreover have "S / G * 100 - 100 = (S / G - 1) * 100" by (simp add: algebra_simps)
  ultimately have d2: "\<bar>S / G * 100 - 100\<bar> \<le> 2000 * u" by (simp only: abs_mult)
  have "(of_nat (length cts) :: rat) \<le> 9" using len by simp
  then have "of_nat (length cts) * (1002 * u) \<le> 9 * (1002 * u)"
    using u by (intro mult_right_mono) simp_all
  then have d3: "of_nat (length cts) * (1 / 200 + 1002 * u)
                  \<le> of_nat (length cts) / 200 + 9018 * u"
    by (simp add: algebra_simps)
  have d4: "11018 * u \<le> 1 / 10 ^ 11" by (simp add: u_def unit_roundoff_def)
  from d1 d2 d3 d4 show ?thesis unfolding sc u_def [symmetric] by linarith
qed

lemma foldl_plus:
  fixes f :: "'a \<Rightarrow> 'b::comm_monoid_add"
  shows "foldl (\<lambda>sum c. sum + f c) a xs = a + sum_list (map f xs)"
  by (induction xs arbitrary: a) (simp_all add: add.assoc)

lemma round_half_even_pos:
  assumes "1 / 2 < y"
  shows "1 \<le> round_half_even y"
proof (cases "1 \<le> y")
  case True
  then have "1 \<le> \<lfloor>y\<rfloor>" by (simp add: le_floor_iff)
  then show ?thesis by (simp add: round_half_even_def Let_def)
next
  case False
  with assms have "\<lfloor>y\<rfloor> = 0" by (intro floor_unique) simp_all
  with assms show ?thesis by (simp add: round_half_even_def Let_def)
qed

lemma sum_amounts_ge:
  assumes "es \<noteq> []" and "\<forall>x \<in> set es. 1 / 100 \<le> amount x"
  shows "1 / 100 \<le> sum_list (map amount es)"
proof -
  from assms(1) obtain a xs where es: "es = a # xs" by (cases es) auto
  have "1 / 100 \<le> amount a" using assms(2) by (simp add: es)
  moreover have "0 \<le> sum_list (map amount xs)"
  proof (rule sum_list_nonneg)
    fix v assume "v \<in> set (map amount xs)"
    then obtain x where "x \<in> set xs" "v = amount x" by auto
    with assms(2) have "1 / 100 \<le> v" by (simp add: es)
    then show "0 \<le> v" by simp
  qed
  ultimately show ?thesis by (simp add: es)
qed

lemma mongo_total_pos:
  assumes "es \<noteq> []" and "\<forall>x \<in> set es. 1 / 100 \<le> amount x"
  shows "0 < mongo_round2 (mongo_sum es)"
proof -
  define S where "S = sum_list (map amount es)"
  have S: "1 / 100 \<le> S" unfolding S_def using assms by (rule sum_amounts_ge)
  then have "S * (1 - unit_roundoff) \<le> rd S" by (intro rd_rel) simp
  then have a: "S - S * unit_roundoff \<le> rd S" by (simp add: algebra_simps)
  have "S * unit_roundoff \<le> S * (1 / 100)"
    using S by (intro mult_left_mono) (simp_all add: unit_roundoff_def)
  then have b: "S * unit_roundoff \<le> S / 100" by (simp only: mult_1_right times_divide_eq_right)
  from a b S have "1 / 2 < rd S * 100" by linarith
  then have "1 \<le> round_half_even (rd S * 100)" by (rule round_half_even_pos)
  then have "(0::rat) < of_int (round_half_even (rd S * 100)) / 100" by simp
  then have "0 < rd (of_int (round_half_even (rd S * 100)) / 100)" by (rule rd_pos)
  then show ?thesis by (simp add: mongo_round2_def mongo_sum_def S_def)
qed

lemma set_categoryTotals:
  "set (categoryTotals db uid s e)
     = category_group ` set (group_by category (category_match db uid s e))"
  by (simp add: categoryTotals_def)

lemma categoryTotals_count: "c \<in> set (categoryTotals db uid s e) \<Longrightarrow> 0 < ct_count c"
  by (auto simp: set_categoryTotals category_group_def dest: group_nonempty)

lemma categoryTotals_total_pos:
  assumes "\<forall>x \<in> set (category_match db uid s e). 1 / 100 \<le> amount x"
    and "c \<in> set (categoryTotals db uid s e)"
  shows "0 < ct_totalAmount c"
proof -
  from assms(2) obtain g where g: "g \<in> set (group_by category (category_match db uid s e))"
    and c: "c = category_group g"
    unfolding set_categoryTotals by blast
  from g have ne: "snd g \<noteq> []" by (rule group_nonempty)
  from g have "set (snd g) \<subseteq> set (category_match db uid s e)"
    by (auto simp: set_group_by)
  then have "\<forall>x \<in> set (snd g). 1 / 100 \<le> amount x"
    using assms(1) by blast
  with ne have "0 < mongo_round2 (mongo_sum (snd g))" by (rule mongo_total_pos)
  then show ?thesis unfolding c category_group_def by simp
qed

lemma UNIV_ExpenseCategory:
  "UNIV = {FOOD, TRANSPORTATION, ENTERTAINMENT, HEALTHCARE, SHOPPING,
           UTILITIES, EDUCATION, TRAVEL, OTHER}"
proof (rule set_eqI)
  fix x :: ExpenseCategory
  show "x \<in> UNIV \<longleftrightarrow> x \<in> {FOOD, TRANSPORTATION, ENTERTAINMENT, HEALTHCARE, SHOPPING,
           UTILITIES, EDUCATION, TRAVEL, OTHER}"
    by (cases x) simp_all
qed

lemma length_categoryTotals: "length (categoryTotals db uid s e) \<le> 9"
proof -
  have f: "finite (UNIV :: ExpenseCategory set)" by (simp add: UNIV_ExpenseCategory)
  have "length (categoryTotals db uid s e) = card (category ` set (category_match db uid s e))"
    by (simp add: categoryTotals_def length_group_by)
  also have "\<dots> \<le> card (UNIV :: ExpenseCategory set)"
    by (rule card_mono [OF f subset_UNIV])
  also have "\<dots> = 9" by (simp add: UNIV_ExpenseCategory)
  finally show ?thesis .
qed

lemma categoryTotals_Nil:
  "categoryTotals db uid s e = [] \<longleftrightarrow> category_match db uid s e = []"
  by (simp add: categoryTotals_def group_by_def flip: length_0_conv [of "sort_key _ _"])

lemma category_fields:
  "cr_totalCount (categoryReport db uid s e)
     = sum_list (map ct_count (categoryTotals db uid s e))"
  "cr_categoriesCount (categoryReport db uid s e) = length (categoryTotals db uid s e)"
  "cr_categoryBreakdown (categoryReport db uid s e)
     = map (with_percentage (foldl fadd 0 (map ct_totalAmount (categoryTotals db uid s e))))
         (categoryTotals db uid s e)"
  by (simp_all add: categoryReport_def category_assemble_def Let_def foldl_plus foldl_map)

lemma breakdown_totals:
  "map ci_totalAmount (cr_categoryBreakdown (categoryReport db uid s e))
     = map ct_totalAmount (categoryTotals db uid s e)"
  by (simp add: category_fields with_percentage_def comp_def)

lemma breakdown_percentages:
  "map ci_percentage (cr_categoryBreakdown (categoryReport db uid s e))
     = map (\<lambda>c. percentage (ct_totalAmount c)
                   (foldl fadd 0 (map ct_totalAmount (categoryTotals db uid s e))))
         (categoryTotals db uid s e)"
  by (simp add: category_fields with_percentage_def comp_def)

lemma sum_counts_zero:
  assumes "\<And>c. c \<in> set cts \<Longrightarrow> 0 < ct_count c"
  shows "sum_list (map ct_count cts) = 0 \<longleftrightarrow> cts = []"
proof (cases cts)
  case Nil
  then show ?thesis by simp
next
  case (Cons a xs)
  have "0 < ct_count a" by (rule assms) (simp add: Cons)
  then show ?thesis by (simp add: Cons)
qed

lemma totalCount_pos:
  "0 < cr_totalCount (categoryReport db uid s e) \<longleftrightarrow> category_match db uid s e \<noteq> []"
proof -
  have h: "sum_list (map ct_count (categoryTotals db uid s e)) = 0
          \<longleftrightarrow> categoryTotals db uid s e = []"
    by (rule sum_counts_zero) (rule categoryTotals_count)
  have a: "0 < sum_list (map ct_count (categoryTotals db uid s e))
          \<longleftrightarrow> sum_list (map ct_count (categoryTotals db uid s e)) \<noteq> 0"
    by (rule neq0_conv [symmetric])
  show ?thesis
    unfolding category_fields categoryTotals_Nil [symmetric] a h by (rule refl)
qed

lemma totalCount_zero:
  "cr_totalCount (categoryReport db uid s e) = 0
     \<Longrightarrow> cr_categoryBreakdown (categoryReport db uid s e) = []"
proof -
  assume "cr_totalCount (categoryReport db uid s e) = 0"
  then have "\<not> 0 < cr_totalCount (categoryReport db uid s e)" by simp
  then have "categoryTotals db uid s e = []"
    by (simp only: totalCount_pos categoryTotals_Nil not_not)
  then show ?thesis by (simp add: category_fields)
qed

text \<open>
  Claim C4, as amended.  Let \<open>G\<close> be the sum of the \<open>totalAmount\<close> fields of the breakdown,
  added up in double arithmetic in the order of the list (the grand total before it is
  rounded for the summary).  Each percentage is \<^verbatim>\<open>Math.round((totalAmount / G) * 100 * 100) / 100\<close>
  in double arithmetic, rounded on its own; nothing makes the rounded values add up to
  100.  When every matched amount is at least 0.01 (the minimum of the schema) and the
  total count is positive, the percentages sum to 100 within 0.005 times the number of
  categories of the breakdown, plus \<open>1 / 10 ^ 11\<close> for the rounding errors of the double
  operations; when the total count is 0 the breakdown is empty.
\<close>

theorem category_percentages_sum:
  "map ci_percentage (cr_categoryBreakdown (categoryReport db uid s e))
           = map (\<lambda>b. if 0 < foldl fadd 0
                               (map ci_totalAmount (cr_categoryBreakdown (categoryReport db uid s e)))
                       then fdiv (of_int (Math_round (fmul (fmul
                              (fdiv (ci_totalAmount b)
                                 (foldl fadd 0 (map ci_totalAmount
                                    (cr_categoryBreakdown (categoryReport db uid s e)))))
                              100) 100))) 100
                       else 0)
               (cr_categoryBreakdown (categoryReport db uid s e))
   \<and> (0 < cr_totalCount (categoryReport db uid s e)
        \<and> (\<forall>x \<in> set (category_match db uid s e). 1 / 100 \<le> amount x)
      \<longrightarrow> \<bar>sum_list (map ci_percentage (cr_categoryBreakdown (categoryReport db uid s e)))
             - 100\<bar>
            \<le> of_nat (cr_categoriesCount (categoryReport db uid s e)) / 200 + 1 / 10 ^ 11)
   \<and> (cr_totalCount (categoryReport db uid s e) = 0
      \<longrightarrow> cr_categoryBreakdown (categoryReport db uid s e) = [])"
proof (intro conjI impI)
  let ?cts = "categoryTotals db uid s e"
  let ?G = "foldl fadd 0 (map ct_totalAmount ?cts)"
  show "map ci_percentage (cr_categoryBreakdown (categoryReport db uid s e))
           = map (\<lambda>b. if 0 < foldl fadd 0
                               (map ci_totalAmount (cr_categoryBreakdown (categoryReport db uid s e)))
                       then fdiv (of_int (Math_round (fmul (fmul
                              (fdiv (ci_totalAmount b)
                                 (foldl fadd 0 (map ci_totalAmount
                                    (cr_categoryBreakdown (categoryReport db uid s e)))))
                              100) 100))) 100
                       else 0)
               (cr_categoryBreakdown (categoryReport db uid s e))"
    unfolding breakdown_totals
    by (simp add: category_fields with_percentage_def percentage_def comp_def)
  show "cr_categoryBreakdown (categoryReport db uid s e) = []"
    if "cr_totalCount (categoryReport db uid s e) = 0"
    using that by (rule totalCount_zero)
  show "\<bar>sum_list (map ci_percentage (cr_categoryBreakdown (categoryReport db uid s e)))
             - 100\<bar>
            \<le> of_nat (cr_categoriesCount (categoryReport db uid s e)) / 200 + 1 / 10 ^ 11"
    if h: "0 < cr_totalCount (categoryReport db uid s e)
           \<and> (\<forall>x \<in> set (category_match db uid s e). 1 / 100 \<le> amount x)"
  proof -
    from h have a: "\<forall>x \<in> set (category_match db uid s e). 1 / 100 \<le> amount x"
      by (rule conjunct2)
    from h have "0 < cr_totalCount (categoryReport db uid s e)" by (rule conjunct1)
    then have "?cts \<noteq> []"
      unfolding totalCount_pos categoryTotals_Nil .
    then have "\<bar>sum_list (map (\<lambda>c. percentage (ct_totalAmount c) ?G) ?cts) - 100\<bar>
            \<le> of_nat (length ?cts) / 200 + 1 / 10 ^ 11"
      using length_categoryTotals
      by (rule percentages_sum_close) (rule categoryTotals_total_pos [OF a])
    then show ?thesis
      by (simp only: breakdown_percentages category_fields(2))
  qed
qed

theorem category_percentages_sum_witness:
  "\<bar>sum_list (map ci_percentage (cr_categoryBreakdown (categoryReport
        [sample_expense 1 7 10 1722513600000 FOOD, sample_expense 2 7 20 1722600000000 FOOD,
         sample_expense 3 7 30 1722686400000 SHOPPING]
        7 1722470400000 1725062400000))) - 100\<bar>
     \<le> of_nat (cr_categoriesCount (categoryReport
        [sample_expense 1 7 10 1722513600000 FOOD, sample_expense 2 7 20 1722600000000 FOOD,
         sample_expense 3 7 30 1722686400000 SHOPPING]
        7 1722470400000 1725062400000)) / 200 + 1 / 10 ^ 11
   \<and> cr_categoryBreakdown (categoryReport
        [sample_expense 1 8 10 1722513600000 FOOD] 7 1722470400000 1725062400000) = []"
proof -
  let ?db = "[sample_expense 1 7 10 1722513600000 FOOD, sample_expense 2 7 20 1722600000000 FOOD,
         sample_expense 3 7 30 1722686400000 SHOPPING]"
  have h: "\<forall>x \<in> set (category_match ?db 7 1722470400000 1725062400000). 1 / 100 \<le> amount x"
    by (simp add: category_match_def sample_expense_def)
  have n: "0 < cr_totalCount (categoryReport ?db 7 1722470400000 1725062400000)"
    unfolding totalCount_pos by (simp add: category_match_def sample_expense_def)
  have "\<not> 0 < cr_totalCount (categoryReport
        [sample_expense 1 8 10 1722513600000 FOOD] 7 1722470400000 1725062400000)"
    unfolding totalCount_pos by (simp add: category_match_def sample_expense_def)
  then have e: "cr_totalCount (categoryReport
        [sample_expense 1 8 10 1722513600000 FOOD] 7 1722470400000 1725062400000) = 0"
    by simp
  show ?thesis
    by (rule conjI
        [OF category_percentages_sum [THEN conjunct2, THEN conjunct1, THEN mp, OF conjI [OF n h]]
          category_percentages_sum [THEN conjunct2, THEN conjunct2, THEN mp, OF e]])
qed

text \<open>
  Claim C4 as stated fails: with one record of 10.00 in each of six categories, every
  percentage is 16.67 and the six of them sum to 100.02, which is off by more than 0.01.
\<close>

theorem category_percentages_counterexample:
  "0 < cr_totalCount (categoryReport
        [sample_expense 1 7 10 1722513600000 FOOD, sample_expense 2 7 10 1722513600000 TRANSPORTATION,
         sample_expense 3 7 10 1722513600000 ENTERTAINMENT, sample_expense 4 7 10 1722513600000 HEALTHCARE,
         sample_expense 5 7 10 1722513600000 SHOPPING, sample_expense 6 7 10 1722513600000 UTILITIES]
        7 1722470400000 1725062400000)
   \<and> map ci_percentage (cr_categoryBreakdown (categoryReport
        [sample_expense 1 7 10 1722513600000 FOOD, sample_expense 2 7 10 1722513600000 TRANSPORTATION,
         sample_expense 3 7 10 1722513600000 ENTERTAINMENT, sample_expense 4 7 10 1722513600000 HEALTHCARE,
         sample_expense 5 7 10 1722513600000 SHOPPING, sample_expense 6 7 10 1722513600000 UTILITIES]
        7 1722470400000 1725062400000)) = replicate 6 (rd (1667 / 100))
   \<and> \<not> \<bar>sum_list (map ci_percentage (cr_categoryBreakdown (categoryReport
        [sample_expense 1 7 10 1722513600000 FOOD, sample_expense 2 7 10 1722513600000 TRANSPORTATION,
         sample_expense 3 7 10 1722513600000 ENTERTAINMENT, sample_expense 4 7 10 1722513600000 HEALTHCARE,
         sample_expense 5 7 10 1722513600000 SHOPPING, sample_expense 6 7 10 1722513600000 UTILITIES]
        7 1722470400000 1725062400000))) - 100\<bar> \<le> 1 / 100"
proof -
  let ?db = "[sample_expense 1 7 10 1722513600000 FOOD, sample_expense 2 7 10 1722513600000 TRANSPORTATION,
         sample_expense 3 7 10 1722513600000 ENTERTAINMENT, sample_expense 4 7 10 1722513600000 HEALTHCARE,
         sample_expense 5 7 10 1722513600000 SHOPPING, sample_expense 6 7 10 1722513600000 UTILITIES]"
  let ?cts = "categoryTotals ?db 7 1722470400000 1725062400000"
  have m: "category_match ?db 7 1722470400000 1725062400000 = ?db"
    by (simp add: category_match_def sample_expense_def)
  have n: "0 < cr_totalCount (categoryReport ?db 7 1722470400000 1725062400000)"
    unfolding totalCount_pos m by simp
  have t10: "mongo_round2 (rd 10) = 10" by code_simp
  have len: "length ?cts = 6"
    unfolding categoryTotals_def m by (simp add: group_by_def sample_expense_def)
  have "\<forall>c \<in> set ?cts. ct_totalAmount c = 10"
    unfolding set_categoryTotals m
    by (simp add: group_by_def sample_expense_def category_group_def mongo_sum_def t10)
  then have "map ct_totalAmount ?cts = map (\<lambda>c. 10) ?cts" by (intro map_cong) simp_all
  then have tot: "map ct_totalAmount ?cts = replicate 6 10"
    by (simp only: map_replicate_const len)
  have G: "foldl fadd 0 (replicate 6 10) = 60" by code_simp
  have p: "percentage 10 60 = rd (1667 / 100)" by code_simp
  have "map ci_percentage (cr_categoryBreakdown (categoryReport ?db 7 1722470400000 1725062400000))
      = map (\<lambda>c. percentage (ct_totalAmount c) 60) ?cts"
    unfolding breakdown_percentages tot G by (rule refl)
  also have "\<dots> = map ((\<lambda>t. percentage t 60) \<circ> ct_totalAmount) ?cts" by (simp add: comp_def)
  also have "\<dots> = map (\<lambda>t. percentage t 60) (replicate 6 10)"
    by (simp only: map_map [symmetric] tot)
  also have "\<dots> = replicate 6 (rd (1667 / 100))" by (simp only: map_replicate p)
  finally have pc: "map ci_percentage (cr_categoryBreakdown
      (categoryReport ?db 7 1722470400000 1725062400000)) = replicate 6 (rd (1667 / 100))" .
  have "1667 / 100 - 1 / 1000 \<le> 1667 / 100 * (1 - unit_roundoff)"
    by (simp add: unit_roundoff_def)
  moreover have "1667 / 100 * (1 - unit_roundoff) \<le> rd (1667 / 100)"
    by (rule rd_rel) simp
  ultimately have "1667 / 100 - 1 / 1000 \<le> rd (1667 / 100)" by (rule order_trans)
  then have s: "\<not> \<bar>sum_list (replicate 6 (rd (1667 / 100))) - 100\<bar> \<le> 1 / 100"
    by (simp add: sum_list_replicate)
  show ?thesis unfolding pc using n s by (intro conjI refl)
qed

section \<open>Rounding of the emitted figures\<close>

lemma categoryTotals_two_places:
  "c \<in> set (categoryTotals db uid s e)
     \<Longrightarrow> two_places (ct_totalAmount c) \<and> two_places (ct_avgAmount c)"
  by (auto simp: set_categoryTotals category_group_def two_places_mongo_round2)

lemma category_two_places:
  "two_places (cr_grandTotal (categoryReport db uid s e))
   \<and> two_places (cr_avgExpense (categoryReport db uid s e))
   \<and> list_all (\<lambda>b. two_places (ci_totalAmount b) \<and> two_places (ci_avgAmount b)
                   \<and> two_places (ci_percentage b))
        (cr_categoryBreakdown (categoryReport db uid s e))"
proof (intro conjI)
  show "two_places (cr_grandTotal (categoryReport db uid s e))"
    by (simp add: categoryReport_def category_assemble_def Let_def two_places_round2)
  show "two_places (cr_avgExpense (categoryReport db uid s e))"
    by (simp add: categoryReport_def category_assemble_def Let_def two_places_round2
        two_places_0)
  show "list_all (\<lambda>b. two_places (ci_totalAmount b) \<and> two_places (ci_avgAmount b)
                   \<and> two_places (ci_percentage b))
        (cr_categoryBreakdown (categoryReport db uid s e))"
    unfolding category_fields list_all_iff
    by (auto simp: with_percentage_def two_places_percentage categoryTotals_two_places)
qed

lemma category_rounding_steps:
  "cr_grandTotal (categoryReport db uid s e)
     = round2 (foldl fadd 0
         (map ci_totalAmount (cr_categoryBreakdown (categoryReport db uid s e))))
   \<and> cr_avgExpense (categoryReport db uid s e)
     = (if cr_totalCount (categoryReport db uid s e) = 0 then 0
        else round2 (fdiv
               (foldl fadd 0
                  (map ci_totalAmount (cr_categoryBreakdown (categoryReport db uid s e))))
               (of_nat (cr_totalCount (categoryReport db uid s e)))))
   \<and> map ci_totalAmount (cr_categoryBreakdown (categoryReport db uid s e))
     = map (\<lambda>b. mongo_round2 (mongo_sum
                (filter (\<lambda>x. category x = ci_category b) (category_match db uid s e))))
         (cr_categoryBreakdown (categoryReport db uid s e))
   \<and> map ci_avgAmount (cr_categoryBreakdown (categoryReport db uid s e))
     = map (\<lambda>b. mongo_round2 (mongo_avg
                (filter (\<lambda>x. category x = ci_category b) (category_match db uid s e))))
         (cr_categoryBreakdown (categoryReport db uid s e))
   \<and> map ci_percentage (cr_categoryBreakdown (categoryReport db uid s e))
     = map (\<lambda>b. percentage (ci_totalAmount b)
                   (foldl fadd 0
                      (map ci_totalAmount (cr_categoryBreakdown (categoryReport db uid s e)))))
         (cr_categoryBreakdown (categoryReport db uid s e))"
proof (intro conjI)
  show "cr_grandTotal (categoryReport db uid s e)
     = round2 (foldl fadd 0
         (map ci_totalAmount (cr_categoryBreakdown (categoryReport db uid s e))))"
    unfolding breakdown_totals
    by (simp add: categoryReport_def category_assemble_def Let_def foldl_map)
  show "cr_avgExpense (categoryReport db uid s e)
     = (if cr_totalCount (categoryReport db uid s e) = 0 then 0
        else round2 (fdiv
               (foldl fadd 0
                  (map ci_totalAmount (cr_categoryBreakdown (categoryReport db uid s e))))
               (of_nat (cr_totalCount (categoryReport db uid s e)))))"
    unfolding breakdown_totals
    by (simp add: categoryReport_def category_assemble_def Let_def foldl_map)
  show "map ci_totalAmount (cr_categoryBreakdown (categoryReport db uid s e))
     = map (\<lambda>b. mongo_round2 (mongo_sum
                (filter (\<lambda>x. category x = ci_category b) (category_match db uid s e))))
         (cr_categoryBreakdown (categoryReport db uid s e))"
    unfolding map_eq_conv breakdown_set
    by (simp add: set_group_by with_percentage_def category_group_def)
  show "map ci_avgAmount (cr_categoryBreakdown (categoryReport db uid s e))
     = map (\<lambda>b. mongo_round2 (mongo_avg
                (filter (\<lambda>x. category x = ci_category b) (category_match db uid s e))))
         (cr_categoryBreakdown (categoryReport db uid s e))"
    unfolding map_eq_conv breakdown_set
    by (simp add: set_group_by with_percentage_def category_group_def)
  show "map ci_percentage (cr_categoryBreakdown (categoryReport db uid s e))
     = map (\<lambda>b. percentage (ci_totalAmount b)
                   (foldl fadd 0
                      (map ci_totalAmount (cr_categoryBreakdown (categoryReport db uid s e)))))
         (cr_categoryBreakdown (categoryReport db uid s e))"
    unfolding breakdown_totals
    by (simp add: category_fields with_percentage_def comp_def)
qed

lemma monthlyTotals_two_places:
  "m \<in> set (monthlyTotals z db uid y)
     \<Longrightarrow> two_places (mt_totalAmount m) \<and> two_places (mt_avgAmount m)"
  by (auto simp: set_monthlyTotals month_group_def two_places_mongo_round2)

lemma fill_month_two_places:
  assumes "\<And>m. m \<in> set mts \<Longrightarrow> two_places (mt_totalAmount m) \<and> two_places (mt_avgAmount m)"
  shows "two_places (mi_totalAmount (fill_month mts p))
         \<and> two_places (mi_avgAmount (fill_month mts p))"
proof (cases "find (\<lambda>m. mt_month m = int (fst p) + 1) mts")
  case None
  then show ?thesis by (simp add: fill_month_def Let_def two_places_0)
next
  case (Some m)
  then have "m \<in> set mts" by (auto simp: find_Some_iff)
  with assms Some show ?thesis by (simp add: fill_month_def Let_def)
qed

lemma monthly_two_places:
  "two_places (mr_yearlyTotal (getMonthlyReport z clk db uid yp))
   \<and> two_places (mr_monthlyAverage (getMonthlyReport z clk db uid yp))
   \<and> list_all (\<lambda>b. two_places (mi_totalAmount b) \<and> two_places (mi_avgAmount b))
        (mr_monthlyBreakdown (getMonthlyReport z clk db uid yp))"
proof (intro conjI)
  show "two_places (mr_yearlyTotal (getMonthlyReport z clk db uid yp))"
    by (simp add: getMonthlyReport_def monthly_assemble_def Let_def two_places_round2)
  show "two_places (mr_monthlyAverage (getMonthlyReport z clk db uid yp))"
    by (simp add: getMonthlyReport_def monthly_assemble_def Let_def two_places_round2)
  have "\<And>p. two_places (mi_totalAmount
                 (fill_month (monthlyTotals z db uid (or_default yp (getFullYear z (clk 0)))) p))
          \<and> two_places (mi_avgAmount
                 (fill_month (monthlyTotals z db uid (or_default yp (getFullYear z (clk 0)))) p))"
    by (rule fill_month_two_places) (rule monthlyTotals_two_places)
  then show "list_all (\<lambda>b. two_places (mi_totalAmount b) \<and> two_places (mi_avgAmount b))
        (mr_monthlyBreakdown (getMonthlyReport z clk db uid yp))"
    unfolding breakdown_eq list_all_iff by auto
qed

lemma dailyTrends_two_places:
  "d \<in> set (dailyTrends db uid t) \<Longrightarrow> two_places (dt_totalAmount d)"
  by (auto simp: dailyTrends_def day_group_def two_places_mongo_round2)

lemma topCategories_two_places:
  "t \<in> set (topCategories m) \<Longrightarrow> two_places (tc_totalAmount t)"
proof -
  assume "t \<in> set (topCategories m)"
  then have "t \<in> set (sort_key (\<lambda>c. - tc_totalAmount c) (map top_group (group_by category m)))"
    unfolding topCategories_def by (rule in_set_takeD)
  then show ?thesis by (auto simp: top_group_def two_places_mongo_round2)
qed

lemma trend_two_places:
  "two_places (tr_periodTotal (getExpenseTrends z clk db uid dp))
   \<and> two_places (tr_dailyAverage (getExpenseTrends z clk db uid dp))
   \<and> list_all (\<lambda>d. two_places (dt_totalAmount d))
        (tr_dailyTrends (getExpenseTrends z clk db uid dp))
   \<and> list_all (\<lambda>t. two_places (tc_totalAmount t))
        (tr_topCategories (getExpenseTrends z clk db uid dp))"
proof (intro conjI)
  show "two_places (tr_periodTotal (getExpenseTrends z clk db uid dp))"
    by (simp add: getExpenseTrends_def trend_assemble_def Let_def two_places_round2)
  show "two_places (tr_dailyAverage (getExpenseTrends z clk db uid dp))"
    by (simp add: getExpenseTrends_def trend_assemble_def Let_def two_places_round2)
  show "list_all (\<lambda>d. two_places (dt_totalAmount d))
        (tr_dailyTrends (getExpenseTrends z clk db uid dp))"
    unfolding trend_fields list_all_iff by (auto simp: dailyTrends_two_places)
  show "list_all (\<lambda>t. two_places (tc_totalAmount t))
        (tr_topCategories (getExpenseTrends z clk db uid dp))"
    unfolding list_all_iff
    by (auto simp: getExpenseTrends_def trend_assemble_def Let_def topCategories_two_places)
qed

lemma trend_rounding_steps:
  "tr_periodTotal (getExpenseTrends z clk db uid dp)
       = round2 (foldl fadd 0
           (map dt_totalAmount (tr_dailyTrends (getExpenseTrends z clk db uid dp))))
   \<and> tr_dailyAverage (getExpenseTrends z clk db uid dp)
       = (if tr_activeDays (getExpenseTrends z clk db uid dp) = 0 then 0
          else round2 (fdiv
                 (foldl fadd 0
                    (map dt_totalAmount (tr_dailyTrends (getExpenseTrends z clk db uid dp))))
                 (of_nat (tr_activeDays (getExpenseTrends z clk db uid dp)))))"
  unfolding trend_fields trend_periodTotal trend_dailyAverage by (intro conjI refl)

lemma summary_two_places:
  "two_places (sr_totalExpenses (getExpenseSummary z clk db uid))
   \<and> two_places (sr_averageExpense (getExpenseSummary z clk db uid))
   \<and> two_places (sr_minExpense (getExpenseSummary z clk db uid))
   \<and> two_places (sr_maxExpense (getExpenseSummary z clk db uid))
   \<and> two_places (sr_monthTotalAmount (getExpenseSummary z clk db uid))
   \<and> list_all (\<lambda>t. two_places (tc_totalAmount t))
        (sr_topCategories (getExpenseSummary z clk db uid))"
  unfolding list_all_iff
  by (auto simp: getExpenseSummary_def Let_def two_places_round2 topCategories_two_places)

lemma summary_average:
  "sr_averageExpense (getExpenseSummary z clk db uid)
     = (if sr_totalCount (getExpenseSummary z clk db uid) = 0 then 0
        else round2 (mongo_avg (filter (\<lambda>x. userId x = uid) db)))"
  by (cases "user_match db uid")
    (simp_all add: getExpenseSummary_def totalExpenses_def Let_def round2_0
      flip: user_match_def)

text \<open>
  Claim C2, as amended.  Every aggregate monetary and percentage figure of the four reports
  (totals, averages, minimum, maximum, percentages) is the double nearest to a whole number
  of hundredths.  The rounding is not left to the last step, and it is not a rounding half
  up of the decimal value.  In the category report the total and the average of each
  category are \<^verbatim>\<open>$sum\<close> and \<^verbatim>\<open>$avg\<close> rounded inside the aggregation pipeline by \<^verbatim>\<open>$round\<close>; the
  grand total is the sum of those rounded totals, added up in double arithmetic and rounded
  again with \<^verbatim>\<open>Math.round(x * 100) / 100\<close>, and the percentages and the average expense are
  computed from the rounded totals in double arithmetic and rounded in the same way.  In
  the trend report the period total and the daily average come from the sum of the day
  totals as emitted, which are already rounded.  The averages of the summaries are 0 when
  their divisor is 0: the category report's average expense, the trend report's daily
  average and the summary report's average expense.
\<close>

theorem report_figures_rounding:
  "(two_places (cr_grandTotal (categoryReport db uid s e))
    \<and> two_places (cr_avgExpense (categoryReport db uid s e))
    \<and> list_all (\<lambda>b. two_places (ci_totalAmount b) \<and> two_places (ci_avgAmount b)
                    \<and> two_places (ci_percentage b))
         (cr_categoryBreakdown (categoryReport db uid s e)))
   \<and> (cr_grandTotal (categoryReport db uid s e)
         = round2 (foldl fadd 0
             (map ci_totalAmount (cr_categoryBreakdown (categoryReport db uid s e))))
      \<and> cr_avgExpense (categoryReport db uid s e)
         = (if cr_totalCount (categoryReport db uid s e) = 0 then 0
            else round2 (fdiv
                   (foldl fadd 0
                      (map ci_totalAmount (cr_categoryBreakdown (categoryReport db uid s e))))
                   (of_nat (cr_totalCount (categoryReport db uid s e)))))
      \<and> map ci_totalAmount (cr_categoryBreakdown (categoryReport db uid s e))
         = map (\<lambda>b. mongo_round2 (mongo_sum
                    (filter (\<lambda>x. category x = ci_category b) (category_match db uid s e))))
             (cr_categoryBreakdown (categoryReport db uid s e))
      \<and> map ci_avgAmount (cr_categoryBreakdown (categoryReport db uid s e))
         = map (\<lambda>b. mongo_round2 (mongo_avg
                    (filter (\<lambda>x. category x = ci_category b) (category_match db uid s e))))
             (cr_categoryBreakdown (categoryReport db uid s e))
      \<and> map ci_percentage (cr_categoryBreakdown (categoryReport db uid s e))
         = map (\<lambda>b. percentage (ci_totalAmount b)
                       (foldl fadd 0
                          (map ci_totalAmount
                             (cr_categoryBreakdown (categoryReport db uid s e)))))
             (cr_categoryBreakdown (categoryReport db uid s e)))
   \<and> (two_places (mr_yearlyTotal (getMonthlyReport z clk db uid yp))
      \<and> two_places (mr_monthlyAverage (getMonthlyReport z clk db uid yp))
      \<and> list_all (\<lambda>b. two_places (mi_totalAmount b) \<and> two_places (mi_avgAmount b))
           (mr_monthlyBreakdown (getMonthlyReport z clk db uid yp)))
   \<and> (two_places (tr_periodTotal (getExpenseTrends z clk db uid dp))
      \<and> two_places (tr_dailyAverage (getExpenseTrends z clk db uid dp))
      \<and> list_all (\<lambda>d. two_places (dt_totalAmount d))
           (tr_dailyTrends (getExpenseTrends z clk db uid dp))
      \<and> list_all (\<lambda>t. two_places (tc_totalAmount t))
           (tr_topCategories (getExpenseTrends z clk db uid dp)))
   \<and> (tr_periodTotal (getExpenseTrends z clk db uid dp)
         = round2 (foldl fadd 0
             (map dt_totalAmount (tr_dailyTrends (getExpenseTrends z clk db uid dp))))
      \<and> tr_dailyAverage (getExpenseTrends z clk db uid dp)
         = (if tr_activeDays (getExpenseTrends z clk db uid dp) = 0 then 0
            else round2 (fdiv
                   (foldl fadd 0
                      (map dt_totalAmount (tr_dailyTrends (getExpenseTrends z clk db uid dp))))
                   (of_nat (tr_activeDays (getExpenseTrends z clk db uid dp))))))
   \<and> (two_places (sr_totalExpenses (getExpenseSummary z clk db uid))
      \<and> two_places (sr_averageExpense (getExpenseSummary z clk db uid))
      \<and> two_places (sr_minExpense (getExpenseSummary z clk db uid))
      \<and> two_places (sr_maxExpense (getExpenseSummary z clk db uid))
      \<and> two_places (sr_monthTotalAmount (getExpenseSummary z clk db uid))
      \<and> list_all (\<lambda>t. two_places (tc_totalAmount t))
           (sr_topCategories (getExpenseSummary z clk db uid)))
   \<and> sr_averageExpense (getExpenseSummary z clk db uid)
       = (if sr_totalCount (getExpenseSummary z clk db uid) = 0 then 0
          else round2 (mongo_avg (filter (\<lambda>x. userId x = uid) db)))"
  by (rule conjI [OF category_two_places
        conjI [OF category_rounding_steps
          conjI [OF monthly_two_places
            conjI [OF trend_two_places
              conjI [OF trend_rounding_steps
                conjI [OF summary_two_places summary_average]]]]]])

text \<open>
  Claim C2 as stated fails in its rounding rule.  With two records of 1.00 and 1.01 in one
  category (amounts that the request validator accepts), the category report shows the
  grand total 2.01 over 2 records and the average expense 1, and 2.01 divided by 2 is 1.005,
  which rounds half up to 1.01: in double arithmetic \<^verbatim>\<open>(2.01 / 2) * 100\<close> is a little less
  than 100.5, and \<^verbatim>\<open>Math.round\<close> takes it to 100.
\<close>

theorem rounding_half_up_counterexample:
  "cr_grandTotal (categoryReport
       [sample_expense 1 7 1 1722513600000 FOOD,
        sample_expense 2 7 (rd (101 / 100)) 1722600000000 FOOD]
       7 1722470400000 1725062400000) = rd (201 / 100)
   \<and> cr_totalCount (categoryReport
       [sample_expense 1 7 1 1722513600000 FOOD,
        sample_expense 2 7 (rd (101 / 100)) 1722600000000 FOOD]
       7 1722470400000 1725062400000) = 2
   \<and> cr_avgExpense (categoryReport
       [sample_expense 1 7 1 1722513600000 FOOD,
        sample_expense 2 7 (rd (101 / 100)) 1722600000000 FOOD]
       7 1722470400000 1725062400000) = 1
   \<and> spec_round2 (201 / 100 / 2) = 101 / 100
   \<and> rd (101 / 100) \<noteq> 1"
proof -
  let ?db = "[sample_expense 1 7 1 1722513600000 FOOD,
              sample_expense 2 7 (rd (101 / 100)) 1722600000000 FOOD]"
  let ?R = "categoryReport ?db 7 1722470400000 1725062400000"
  have m: "category_match ?db 7 1722470400000 1725062400000 = ?db"
    by (simp add: category_match_def sample_expense_def)
  have cts: "categoryTotals ?db 7 1722470400000 1725062400000 = [category_group (FOOD, ?db)]"
    unfolding categoryTotals_def m by (simp add: group_by_def sample_expense_def)
  have ev1: "mongo_round2 (mongo_sum ?db) = rd (201 / 100)" by code_simp
  have tot: "map ci_totalAmount (cr_categoryBreakdown ?R) = [rd (201 / 100)]"
    unfolding breakdown_totals cts
    by (simp only: list.map category_group_def snd_conv category_total.select_convs ev1)
  have cnt: "cr_totalCount ?R = 2"
    unfolding category_fields cts by (simp add: category_group_def)
  have ev2: "round2 (foldl fadd 0 [rd (201 / 100)]) = rd (201 / 100)" by code_simp
  have ev3: "round2 (fdiv (foldl fadd 0 [rd (201 / 100)]) (of_nat 2)) = 1" by code_simp
  have c: "spec_round2 (201 / 100 / 2) = 101 / 100" by code_simp
  have d: "rd (101 / 100) \<noteq> 1" by code_simp
  have g: "cr_grandTotal ?R = rd (201 / 100)"
    unfolding category_rounding_steps [THEN conjunct1] tot by (rule ev2)
  have a: "cr_avgExpense ?R = 1"
    unfolding category_rounding_steps [THEN conjunct2, THEN conjunct1] tot cnt
    using ev3 by simp
  from g cnt a c d show ?thesis by (intro conjI)
qed

section \<open>The window of the monthly report\<close>

text \<open>
  Claim C8.  The upper bound of the monthly \<^verbatim>\<open>$match\<close> is \<^verbatim>\<open>new Date(year, 11, 31)\<close>, the
  first instant of 31 December (local time), and the comparison is \<^verbatim>\<open>$lte\<close>.  A record
  dated 31 December 2024 at noon (UTC, on a server whose local time is UTC) is therefore
  left out of the report for 2024: the yearly count and the count of the December entry
  are 0, although the record's year, month and day are 2024, 12 and 31.
\<close>

theorem monthly_drops_december_31:
  "utc_year 1735646400000 = 2024 \<and> utc_month 1735646400000 = 12
   \<and> utc_dayOfMonth 1735646400000 = 31
   \<and> new_Date utc_zone 2024 11 31 = 1735603200000
   \<and> mr_yearlyCount (getMonthlyReport utc_zone (at_time 1735732800000)
         [sample_expense 1 7 50 1735646400000 FOOD] 7 (Some 2024)) = 0
   \<and> mi_count (last (mr_monthlyBreakdown (getMonthlyReport utc_zone (at_time 1735732800000)
         [sample_expense 1 7 50 1735646400000 FOOD] 7 (Some 2024)))) = 0"
  by code_simp

section \<open>Dependence on the clock\<close>

lemma monthly_year_only:
  assumes "y \<noteq> 0"
  shows "getMonthlyReport z clk db uid (Some y) = getMonthlyReport z clk' db uid (Some y)"
  using assms by (simp add: getMonthlyReport_def or_default_def)

lemma monthly_same_year:
  assumes "getFullYear z (clk 0) = getFullYear z (clk' 0)"
  shows "getMonthlyReport z clk db uid yp = getMonthlyReport z clk' db uid yp"
  using assms by (simp add: getMonthlyReport_def)

lemma summary_same_month:
  assumes "getFullYear z (clk 0) = getFullYear z (clk' 0)"
    and "getMonth z (clk 1) = getMonth z (clk' 1)"
    and "getFullYear z (clk 2) = getFullYear z (clk' 2)"
    and "getMonth z (clk 3) = getMonth z (clk' 3)"
  shows "getExpenseSummary z clk db uid = getExpenseSummary z clk' db uid"
  using assms by (simp add: getExpenseSummary_def currentMonthExpenses_def)

lemma trend_same_window:
  assumes "trend_match db uid (minus_days z (clk 0) (or_default dp 30))
             = trend_match db uid (minus_days z' (clk' 0) (or_default dp 30))"
  shows "tr_dailyTrends (getExpenseTrends z clk db uid dp)
           = tr_dailyTrends (getExpenseTrends z' clk' db uid dp)
     \<and> tr_topCategories (getExpenseTrends z clk db uid dp)
           = tr_topCategories (getExpenseTrends z' clk' db uid dp)
     \<and> tr_periodTotal (getExpenseTrends z clk db uid dp)
           = tr_periodTotal (getExpenseTrends z' clk' db uid dp)
     \<and> tr_periodCount (getExpenseTrends z clk db uid dp)
           = tr_periodCount (getExpenseTrends z' clk' db uid dp)
     \<and> tr_dailyAverage (getExpenseTrends z clk db uid dp)
           = tr_dailyAverage (getExpenseTrends z' clk' db uid dp)
     \<and> tr_activeDays (getExpenseTrends z clk db uid dp)
           = tr_activeDays (getExpenseTrends z' clk' db uid dp)"
  using assms by (simp add: getExpenseTrends_def trend_assemble_def Let_def dailyTrends_def)

text \<open>
  Claim C9, as amended.  The collection is unchanged and the store scans it in the same
  order; the parameters are the same; the two requests may differ in their clocks.  The
  category report reads neither the clock nor the time zone, so its output is the same in
  any two environments.  The monthly report for an explicit year other than 0 is the same
  at any two request times on the same server; without a year it is the same when the
  first clock readings of the two requests fall in the same local year.  The summary
  report reads the clock four times, for the bounds of the current month, and is the same
  when the readings of the two requests agree in the local year (first and third reading)
  and month (second and fourth).  In the trend report the daily trends, the top categories
  and the summary figures are the same when the windows of the two requests select the
  same records; its period echoes \<open>days\<close>, the start of the window, computed from the first
  reading, and the second reading as \<open>endDate\<close>.
\<close>

theorem reports_repeatable:
  "getCategoryReport z clk db uid q = getCategoryReport z' clk' db uid q
   \<and> (y \<noteq> 0
        \<longrightarrow> getMonthlyReport z clk db uid (Some y) = getMonthlyReport z clk' db uid (Some y))
   \<and> (getFullYear z (clk 0) = getFullYear z (clk' 0)
        \<longrightarrow> getMonthlyReport z clk db uid yp = getMonthlyReport z clk' db uid yp)
   \<and> (getFullYear z (clk 0) = getFullYear z (clk' 0)
        \<and> getMonth z (clk 1) = getMonth z (clk' 1)
        \<and> getFullYear z (clk 2) = getFullYear z (clk' 2)
        \<and> getMonth z (clk 3) = getMonth z (clk' 3)
        \<longrightarrow> getExpenseSummary z clk db uid = getExpenseSummary z clk' db uid)
   \<and> (trend_match db uid (minus_days z (clk 0) (or_default dp 30))
          = trend_match db uid (minus_days z' (clk' 0) (or_default dp 30))
        \<longrightarrow> tr_dailyTrends (getExpenseTrends z clk db uid dp)
              = tr_dailyTrends (getExpenseTrends z' clk' db uid dp)
          \<and> tr_topCategories (getExpenseTrends z clk db uid dp)
              = tr_topCategories (getExpenseTrends z' clk' db uid dp)
          \<and> tr_periodTotal (getExpenseTrends z clk db uid dp)
              = tr_periodTotal (getExpenseTrends z' clk' db uid dp)
          \<and> tr_periodCount (getExpenseTrends z clk db uid dp)
              = tr_periodCount (getExpenseTrends z' clk' db uid dp)
          \<and> tr_dailyAverage (getExpenseTrends z clk db uid dp)
              = tr_dailyAverage (getExpenseTrends z' clk' db uid dp)
          \<and> tr_activeDays (getExpenseTrends z clk db uid dp)
              = tr_activeDays (getExpenseTrends z' clk' db uid dp))
   \<and> tr_days (getExpenseTrends z clk db uid dp) = or_default dp 30
   \<and> tr_startDate (getExpenseTrends z clk db uid dp) = minus_days z (clk 0) (or_default dp 30)
   \<and> tr_endDate (getExpenseTrends z clk db uid dp) = clk 1"
proof -
  have c: "getCategoryReport z clk db uid q = getCategoryReport z' clk' db uid q"
    by (simp add: getCategoryReport_def)
  have m: "y \<noteq> 0
        \<longrightarrow> getMonthlyReport z clk db uid (Some y) = getMonthlyReport z clk' db uid (Some y)"
    using monthly_year_only by blast
  have d: "getFullYear z (clk 0) = getFullYear z (clk' 0)
        \<longrightarrow> getMonthlyReport z clk db uid yp = getMonthlyReport z clk' db uid yp"
    using monthly_same_year by blast
  have s: "getFullYear z (clk 0) = getFullYear z (clk' 0)
        \<and> getMonth z (clk 1) = getMonth z (clk' 1)
        \<and> getFullYear z (clk 2) = getFullYear z (clk' 2)
        \<and> getMonth z (clk 3) = getMonth z (clk' 3)
        \<longrightarrow> getExpenseSummary z clk db uid = getExpenseSummary z clk' db uid"
    using summary_same_month by blast
  have t: "trend_match db uid (minus_days z (clk 0) (or_default dp 30))
          = trend_match db uid (minus_days z' (clk' 0) (or_default dp 30))
        \<longrightarrow> tr_dailyTrends (getExpenseTrends z clk db uid dp)
              = tr_dailyTrends (getExpenseTrends z' clk' db uid dp)
          \<and> tr_topCategories (getExpenseTrends z clk db uid dp)
              = tr_topCategories (getExpenseTrends z' clk' db uid dp)
          \<and> tr_periodTotal (getExpenseTrends z clk db uid dp)
              = tr_periodTotal (getExpenseTrends z' clk' db uid dp)
          \<and> tr_periodCount (getExpenseTrends z clk db uid dp)
              = tr_periodCount (getExpenseTrends z' clk' db uid dp)
          \<and> tr_dailyAverage (getExpenseTrends z clk db uid dp)
              = tr_dailyAverage (getExpenseTrends z' clk' db uid dp)
          \<and> tr_activeDays (getExpenseTrends z clk db uid dp)
              = tr_activeDays (getExpenseTrends z' clk' db uid dp)"
    by (rule impI) (rule trend_same_window)
  from c m d s t trend_fields(1) trend_fields(2) trend_fields(3) show ?thesis
    by (intro conjI)
qed

theorem reports_repeatable_witness:
  "getCategoryReport utc_zone (at_time 1735732800000)
       [sample_expense 1 7 10 1734264000000 FOOD] 7 (date_range 1733011200000 1735689599999)
     = getCategoryReport utc_zone (at_time 1735736400000)
       [sample_expense 1 7 10 1734264000000 FOOD] 7 (date_range 1733011200000 1735689599999)
   \<and> getMonthlyReport utc_zone (at_time 1735732800000)
       [sample_expense 1 7 10 1734264000000 FOOD] 7 (Some 2024)
     = getMonthlyReport utc_zone (at_time 1735736400000)
       [sample_expense 1 7 10 1734264000000 FOOD] 7 (Some 2024)
   \<and> getMonthlyReport utc_zone (at_time 1735732800000)
       [sample_expense 1 7 10 1734264000000 FOOD] 7 None
     = getMonthlyReport utc_zone (at_time 1735736400000)
       [sample_expense 1 7 10 1734264000000 FOOD] 7 None
   \<and> getExpenseSummary utc_zone (at_time 1735732800000)
       [sample_expense 1 7 10 1734264000000 FOOD] 7
     = getExpenseSummary utc_zone (at_time 1735736400000)
       [sample_expense 1 7 10 1734264000000 FOOD] 7
   \<and> tr_dailyTrends (getExpenseTrends utc_zone (at_time 1735732800000)
       [sample_expense 1 7 10 1734264000000 FOOD] 7 (Some 30))
     = tr_dailyTrends (getExpenseTrends utc_zone (at_time 1735736400000)
       [sample_expense 1 7 10 1734264000000 FOOD] 7 (Some 30))"
proof -
  have y: "(2024::int) \<noteq> 0" by simp
  have a: "getFullYear utc_zone (at_time 1735732800000 0)
             = getFullYear utc_zone (at_time 1735736400000 0)"
    by code_simp
  have b: "getFullYear utc_zone (at_time 1735732800000 0)
             = getFullYear utc_zone (at_time 1735736400000 0)
         \<and> getMonth utc_zone (at_time 1735732800000 1)
             = getMonth utc_zone (at_time 1735736400000 1)
         \<and> getFullYear utc_zone (at_time 1735732800000 2)
             = getFullYear utc_zone (at_time 1735736400000 2)
         \<and> getMonth utc_zone (at_time 1735732800000 3)
             = getMonth utc_zone (at_time 1735736400000 3)"
    by code_simp
  have w: "trend_match [sample_expense 1 7 10 1734264000000 FOOD] 7
               (minus_days utc_zone (at_time 1735732800000 0) (or_default (Some 30) 30))
         = trend_match [sample_expense 1 7 10 1734264000000 FOOD] 7
               (minus_days utc_zone (at_time 1735736400000 0) (or_default (Some 30) 30))"
    by (simp add: trend_match_def utc_zone_def minus_days_fixed_zone at_time_def or_default_def
        ms_per_day_def sample_expense_def)
  note t = reports_repeatable
    [where z = utc_zone and z' = utc_zone and clk = "at_time 1735732800000"
       and clk' = "at_time 1735736400000" and uid = 7 and y = 2024 and yp = None
       and dp = "Some 30" and db = "[sample_expense 1 7 10 1734264000000 FOOD]"
       and q = "date_range 1733011200000 1735689599999"]
  note t2 = t [THEN conjunct2]
  note t3 = t2 [THEN conjunct2]
  note t4 = t3 [THEN conjunct2]
  note t5 = t4 [THEN conjunct2]
  show ?thesis
    by (rule conjI [OF t [THEN conjunct1]
          conjI [OF t2 [THEN conjunct1, THEN mp, OF y]
            conjI [OF t3 [THEN conjunct1, THEN mp, OF a]
              conjI [OF t4 [THEN conjunct1, THEN mp, OF b]
                t5 [THEN conjunct1, THEN mp, OF w, THEN conjunct1]]]]])
qed

text \<open>
  Claim C9 as stated fails for the trend report: its window and the \<open>endDate\<close> it echoes
  come from \<^verbatim>\<open>new Date()\<close>.  A record dated exactly 30 days before the first request is
  inside the 30-day window then and outside it one millisecond later, so two runs with the
  same parameters on the same collection give different reports.
\<close>

theorem trend_clock_counterexample:
  "tr_activeDays (getExpenseTrends utc_zone (at_time 1735732800000)
       [sample_expense 1 7 10 1733140800000 FOOD] 7 (Some 30)) = 1
   \<and> tr_activeDays (getExpenseTrends utc_zone (at_time 1735732800001)
       [sample_expense 1 7 10 1733140800000 FOOD] 7 (Some 30)) = 0
   \<and> getExpenseTrends utc_zone (at_time 1735732800000)
       [sample_expense 1 7 10 1733140800000 FOOD] 7 (Some 30)
     \<noteq> getExpenseTrends utc_zone (at_time 1735732800001)
       [sample_expense 1 7 10 1733140800000 FOOD] 7 (Some 30)"
proof -
  let ?db = "[sample_expense 1 7 10 1733140800000 FOOD]"
  have "trend_match ?db 7 (minus_days utc_zone (at_time 1735732800000 0) (or_default (Some 30) 30))
          = ?db"
    by (simp add: trend_match_def utc_zone_def minus_days_fixed_zone at_time_def or_default_def
        ms_per_day_def sample_expense_def)
  then have a: "tr_activeDays (getExpenseTrends utc_zone (at_time 1735732800000) ?db 7 (Some 30)) = 1"
    by (simp add: trend_fields length_dailyTrends)
  have "trend_match ?db 7 (minus_days utc_zone (at_time 1735732800001 0) (or_default (Some 30) 30))
          = []"
    by (simp add: trend_match_def utc_zone_def minus_days_fixed_zone at_time_def or_default_def
        ms_per_day_def sample_expense_def)
  then have b: "tr_activeDays (getExpenseTrends utc_zone (at_time 1735732800001) ?db 7 (Some 30)) = 0"
    by (simp add: trend_fields length_dailyTrends)
  from a b have "tr_activeDays (getExpenseTrends utc_zone (at_time 1735732800000) ?db 7 (Some 30))
          \<noteq> tr_activeDays (getExpenseTrends utc_zone (at_time 1735732800001) ?db 7 (Some 30))"
    by simp
  then have "getExpenseTrends utc_zone (at_time 1735732800000) ?db 7 (Some 30)
          \<noteq> getExpenseTrends utc_zone (at_time 1735732800001) ?db 7 (Some 30)"
    by (rule contrapos_nn) (rule arg_cong [where f = tr_activeDays])
  with a b show ?thesis by (intro conjI)
qed

end
